theory Spec2Isabelle
  imports Main "HOL-Library.Word" "HOL-Library.Multiset"
begin

unbundle bit_operations_syntax

section \<open>Strings as the program handles them\<close>

text \<open>
  JavaScript strings are modelled as \<^typ>\<open>string\<close>. The inputs the scanner classifies are
  ASCII tokens (addresses, CIDR blocks, host names), so one \<^typ>\<open>char\<close> stands for one
  UTF-16 code unit.
\<close>

text \<open>\<^verbatim>\<open>Array.prototype.join\<close>: the elements separated by \<open>sep\<close>; the empty string for
  the empty array.\<close>

fun join :: "string \<Rightarrow> string list \<Rightarrow> string" where
  "join sep [] = []"
| "join sep [x] = x"
| "join sep (x # y # ys) = x @ sep @ join sep (y # ys)"

text \<open>\<^verbatim>\<open>a || d\<close> on a value that is a string, \<^verbatim>\<open>null\<close>, \<^verbatim>\<open>undefined\<close> or
  \<^verbatim>\<open>false\<close>: the default \<open>d\<close> replaces every falsy value, the empty string included.\<close>

definition js_or :: "string option \<Rightarrow> string \<Rightarrow> string" where
  "js_or x d = (case x of None \<Rightarrow> d | Some s \<Rightarrow> if s = [] then d else s)"

text \<open>\<^verbatim>\<open>!x\<close> on such a value.\<close>

definition falsy :: "string option \<Rightarrow> bool" where
  "falsy x = (case x of None \<Rightarrow> True | Some s \<Rightarrow> s = [])"

subsection \<open>Character classes\<close>

definition isDigit :: "char \<Rightarrow> bool" where
  "isDigit c = (c \<in> set ''0123456789'')"

definition isHexDigit :: "char \<Rightarrow> bool" where
  "isHexDigit c = (c \<in> set ''0123456789abcdefABCDEF'')"

definition isAlpha :: "char \<Rightarrow> bool" where
  "isAlpha c = (c \<in> set ''abcdefghijklmnopqrstuvwxyzABCDEFGHIJKLMNOPQRSTUVWXYZ'')"

text \<open>The white space and line terminators \<^verbatim>\<open>String.prototype.trim\<close> and
  \<^verbatim>\<open>parseInt\<close> skip, among the code units a \<^typ>\<open>char\<close> holds.\<close>

definition isSpace :: "char \<Rightarrow> bool" where
  "isSpace c = (c \<in> set [CHR 0x09, CHR 0x0A, CHR 0x0B, CHR 0x0C, CHR 0x0D, CHR 0x20, CHR 0xA0])"

subsection \<open>\<^verbatim>\<open>trim\<close>, \<^verbatim>\<open>split\<close>, \<^verbatim>\<open>includes\<close>, \<^verbatim>\<open>padStart\<close>\<close>

definition trim :: "string \<Rightarrow> string" where
  "trim s = rev (dropWhile isSpace (rev (dropWhile isSpace s)))"

text \<open>\<^verbatim>\<open>s.split(sep)\<close> for a non-empty separator: the pieces between the occurrences of
  \<open>sep\<close>, found from the left; always at least one piece.\<close>

fun split_str :: "string \<Rightarrow> string \<Rightarrow> string list" where
  "split_str sep [] = [[]]"
| "split_str sep (c # cs) =
     (if sep \<noteq> [] \<and> take (length sep) (c # cs) = sep
      then [] # split_str sep (drop (length sep) (c # cs))
      else (case split_str sep cs of [] \<Rightarrow> [[c]] | p # ps \<Rightarrow> (c # p) # ps))"

fun includes_str :: "string \<Rightarrow> string \<Rightarrow> bool" where
  "includes_str sub [] = (sub = [])"
| "includes_str sub (c # cs) = (take (length sub) (c # cs) = sub \<or> includes_str sub cs)"

definition padStart :: "nat \<Rightarrow> char \<Rightarrow> string \<Rightarrow> string" where
  "padStart n c s = replicate (n - length s) c @ s"

subsection \<open>Numbers and their digits\<close>

text \<open>The value of a character as a digit: \<open>0\<close> to \<open>9\<close>, then the letters of either
  case from 10 on; 36, which no radix accepts, for any other character.\<close>

definition digitVal :: "char \<Rightarrow> nat" where
  "digitVal c =
     (let n = of_char c :: nat
      in if 48 \<le> n \<and> n \<le> 57 then n - 48
         else if 97 \<le> n \<and> n \<le> 122 then n - 87
         else if 65 \<le> n \<and> n \<le> 90 then n - 55
         else 36)"

text \<open>
  \<^verbatim>\<open>Number(s)\<close> on a string of decimal digits, the only strings the program converts
  (each is a \<^verbatim>\<open>\d+\<close> group of the CIDR pattern or an octet \<^verbatim>\<open>net.isIP\<close> accepted).
  JavaScript rounds a value above \<open>2^53\<close> to a double; here the value is exact, which
  changes nothing the program does with it: it only compares an octet with 255, adds one
  to it, and prints it into an address that \<^verbatim>\<open>net.isIP\<close> rejects for any octet above
  255 however it is printed.
\<close>

definition Number :: "string \<Rightarrow> nat" where
  "Number s = foldl (\<lambda>n c. 10 * n + digitVal c) 0 s"

text \<open>
  The bit length of a number, and the double nearest to a non-negative integer, ties to
  even: the value itself when it fits the 53 bits of the significand, otherwise the
  nearest multiple of the unit in the last place; \<open>None\<close> is \<^verbatim>\<open>Infinity\<close>, for a value
  that rounds to \<open>2^1024\<close> or more.
\<close>

fun bitLength :: "nat \<Rightarrow> nat" where
  "bitLength n = (if n = 0 then 0 else Suc (bitLength (n div 2)))"

declare bitLength.simps [simp del]

definition toDouble :: "nat \<Rightarrow> nat option" where
  "toDouble n =
     (let e = bitLength n in
      if e \<le> 53 then Some n
      else (let ulp = 2 ^ (e - 53);
                q = n div ulp;
                r = n mod ulp;
                q1 = (if 2 * r > ulp \<or> (2 * r = ulp \<and> odd q) then q + 1 else q)
            in if q1 * ulp \<ge> 2 ^ 1024 then None else Some (q1 * ulp)))"

text \<open>
  \<^verbatim>\<open>parseInt(s, radix)\<close>: leading white space and one sign are skipped, with radix 16 a
  \<^verbatim>\<open>0x\<close> prefix too; the longest run of digits of the radix is read as an integer, and
  the result is the double nearest to it with the sign. \<open>None\<close> is a result that is no
  finite number: \<^verbatim>\<open>NaN\<close> when the run is empty, and \<^verbatim>\<open>Infinity\<close> or \<^verbatim>\<open>-Infinity\<close>
  when the value is beyond the doubles. The program's two calls treat these alike:
  \<^verbatim>\<open>BigInt\<close> throws a \<^verbatim>\<open>RangeError\<close> on each of them, and
  \<^verbatim>\<open>maskNum >= 0 && maskNum <= 32\<close> is false on each.
\<close>

definition parseInt :: "string \<Rightarrow> nat \<Rightarrow> int option" where
  "parseInt s radix =
     (let s1 = dropWhile isSpace s;
          neg = (take 1 s1 = ''-'');
          s2 = (if take 1 s1 = ''-'' \<or> take 1 s1 = ''+'' then drop 1 s1 else s1);
          s3 = (if radix = 16 \<and> (take 2 s2 = ''0x'' \<or> take 2 s2 = ''0X'') then drop 2 s2
                else s2);
          ds = takeWhile (\<lambda>c. digitVal c < radix) s3;
          n = foldl (\<lambda>n c. radix * n + digitVal c) 0 ds
      in if ds = [] then None
         else (case toDouble n of
                 None \<Rightarrow> None
               | Some v \<Rightarrow> Some (if neg then - int v else int v)))"

text \<open>The decimal digits of a non-negative integer, most significant first, as string
  conversion (here in \<^verbatim>\<open>join\<close>) prints it.\<close>

fun dec_str :: "nat \<Rightarrow> string" where
  "dec_str n =
     (if n < 10 then [''0123456789'' ! n]
      else dec_str (n div 10) @ [''0123456789'' ! (n mod 10)])"

declare dec_str.simps [simp del]

text \<open>\<^verbatim>\<open>bigInt.toString(16)\<close>: the hex digits of the absolute value, after a minus sign
  for a negative value.\<close>

function hex_str :: "int \<Rightarrow> string" where
  "hex_str n =
     (if n < 16 then [''0123456789abcdef'' ! nat n]
      else hex_str (n div 16) @ [''0123456789abcdef'' ! nat (n mod 16)])"
  by pat_completeness auto
termination
  by (relation "measure nat") auto

declare hex_str.simps [simp del]

definition toString16 :: "int \<Rightarrow> string" where
  "toString16 i = (if i < 0 then ''-'' @ hex_str (- i) else hex_str i)"

text \<open>\<^verbatim>\<open>xs[i]\<close> inside a bit operation: a missing element is \<^verbatim>\<open>undefined\<close>, which the
  operation reads as 0.\<close>

definition at :: "nat list \<Rightarrow> nat \<Rightarrow> nat" where
  "at xs i = (if i < length xs then xs ! i else 0)"

subsection \<open>\<^verbatim>\<open>net.isIP\<close>\<close>

text \<open>
  The address check of the Node.js runtime, after the patterns of its \<^verbatim>\<open>net\<close> module.
  An IPv4 address is four decimal octets from 0 to 255 with no leading zero, separated
  by dots.
\<close>

definition v4Seg :: "string \<Rightarrow> bool" where
  "v4Seg p = (p \<noteq> [] \<and> list_all isDigit p \<and> (length p = 1 \<or> hd p \<noteq> CHR ''0'')
              \<and> Number p \<le> 255)"

definition isIPv4 :: "string \<Rightarrow> bool" where
  "isIPv4 s = (let parts = split_str ''.'' s in length parts = 4 \<and> list_all v4Seg parts)"

text \<open>
  An IPv6 address is eight groups of one to four hex digits separated by colons, where
  one \<open>::\<close> may stand for one or more missing groups and a dotted IPv4 address may stand
  for the last two groups; a zone (\<open>%\<close> and at least one of letters, digits, \<open>-\<close>, \<open>.\<close>
  and \<open>:\<close>) may follow.
\<close>

definition v6Seg :: "string \<Rightarrow> bool" where
  "v6Seg p = (1 \<le> length p \<and> length p \<le> 4 \<and> list_all isHexDigit p)"

definition v6Groups :: "string \<Rightarrow> string list" where
  "v6Groups s = (if s = [] then [] else split_str '':'' s)"

text \<open>How many 16-bit groups a colon-separated list stands for; \<open>None\<close> when a member
  is neither a hex group nor, in the last place, a dotted IPv4 address.\<close>

definition v6Count :: "string list \<Rightarrow> nat option" where
  "v6Count gs =
     (if list_all v6Seg gs then Some (length gs)
      else if gs \<noteq> [] \<and> list_all v6Seg (butlast gs) \<and> isIPv4 (last gs)
           then Some (length gs + 1)
      else None)"

definition isIPv6Address :: "string \<Rightarrow> bool" where
  "isIPv6Address s =
     (case split_str ''::'' s of
        [whole] \<Rightarrow> v6Count (split_str '':'' whole) = Some 8
      | [l, r] \<Rightarrow>
          list_all v6Seg (v6Groups l)
          \<and> (case v6Count (v6Groups r) of
                None \<Rightarrow> False
              | Some n \<Rightarrow> length (v6Groups l) + n \<le> 7)
      | _ \<Rightarrow> False)"

definition zoneChar :: "char \<Rightarrow> bool" where
  "zoneChar c = (isDigit c \<or> isAlpha c \<or> c \<in> set ''-.:'')"

definition isIPv6 :: "string \<Rightarrow> bool" where
  "isIPv6 s =
     (case split_str ''%'' s of
        [a] \<Rightarrow> isIPv6Address a
      | [a, zone] \<Rightarrow> isIPv6Address a \<and> zone \<noteq> [] \<and> list_all zoneChar zone
      | _ \<Rightarrow> False)"

definition isIP :: "string \<Rightarrow> nat" where
  "isIP s = (if isIPv4 s then 4 else if isIPv6 s then 6 else 0)"

section \<open>Data model (\<^verbatim>\<open>types/host.ts\<close>, \<^verbatim>\<open>types/tlsscan-result.ts\<close>)\<close>

datatype HostType = IP | CIDR | Domain

record Host =
  ip :: "string option"
  origin :: string
  type :: HostType

record TLSScanResult =
  ip :: string
  origin :: string
  domain :: string
  issuer :: string
  geoCode :: string
  feasible :: bool
  tlsVersion :: string
  alpn :: string

section \<open>IP arithmetic (\<^verbatim>\<open>utils/next-ip.ts\<close>)\<close>

subsection \<open>\<^verbatim>\<open>expandIPv6\<close>\<close>

text \<open>
  \<open>None\<close> is the \<^verbatim>\<open>RangeError\<close> of \<^verbatim>\<open>Array(missingParts)\<close> for a negative length.
  \<^verbatim>\<open>parts[0]\<close> and \<^verbatim>\<open>parts[1]\<close> are read as the program reads them: a missing or
  empty piece gives no groups.
\<close>

definition expandIPv6 :: "string \<Rightarrow> string option" where
  "expandIPv6 ipText =
     (if includes_str ''::'' ipText
      then (let parts = split_str ''::'' ipText;
                leftParts = (case parts of
                               p0 # _ \<Rightarrow> if p0 \<noteq> [] then split_str '':'' p0 else []
                             | _ \<Rightarrow> []);
                rightParts = (case parts of
                                _ # p1 # _ \<Rightarrow> if p1 \<noteq> [] then split_str '':'' p1 else []
                              | _ \<Rightarrow> []);
                missingParts = 8 - int (length leftParts) - int (length rightParts)
            in if missingParts < 0 then None
               else (let expandedParts =
                           leftParts @ replicate (nat missingParts) ''0000'' @ rightParts
                     in Some (join '':'' (map (padStart 4 CHR ''0'') expandedParts))))
      else Some (join '':'' (map (padStart 4 CHR ''0'') (split_str '':'' ipText))))"

subsection \<open>\<^verbatim>\<open>bigIntToIPv6\<close>\<close>

text \<open>The eight slices of four hex digits (the first loop), each without its leading
  zeros (\<^verbatim>\<open>cleanParts\<close>).\<close>

definition hexGroups :: "string \<Rightarrow> string list" where
  "hexGroups hexString =
     (let parts = map (\<lambda>k. take 4 (drop (4 * k) hexString)) [0..<8]
      in map (\<lambda>part. let stripped = dropWhile (\<lambda>c. c = CHR ''0'') part
                      in if stripped = [] then ''0'' else stripped) parts)"

definition cleanPartsOf :: "int \<Rightarrow> string list" where
  "cleanPartsOf bigInt = hexGroups (padStart 32 CHR ''0'' (toString16 bigInt))"

text \<open>
  The loop over \<^verbatim>\<open>cleanParts\<close>, from index \<open>i\<close>, on the state
  (\<^verbatim>\<open>bestStart\<close>, \<^verbatim>\<open>bestLength\<close>, \<^verbatim>\<open>currentStart\<close>, \<^verbatim>\<open>currentLength\<close>).
\<close>

fun longestRun ::
  "string list \<Rightarrow> nat \<Rightarrow> int \<times> nat \<times> int \<times> nat \<Rightarrow> int \<times> nat \<times> int \<times> nat" where
  "longestRun [] i st = st"
| "longestRun (p # ps) i (bestStart, bestLength, currentStart, currentLength) =
     (if p = ''0''
      then (if currentStart = - 1
            then longestRun ps (i + 1) (bestStart, bestLength, int i, 1)
            else longestRun ps (i + 1) (bestStart, bestLength, currentStart, currentLength + 1))
      else (if currentLength > bestLength
            then longestRun ps (i + 1) (currentStart, currentLength, - 1, 0)
            else longestRun ps (i + 1) (bestStart, bestLength, - 1, 0)))"

text \<open>The loop and the comparison after it: \<^verbatim>\<open>bestStart\<close> and \<^verbatim>\<open>bestLength\<close>.\<close>

definition bestRun :: "string list \<Rightarrow> int \<times> nat" where
  "bestRun cleanParts =
     (case longestRun cleanParts 0 (- 1, 0, - 1, 0) of
        (bestStart, bestLength, currentStart, currentLength) \<Rightarrow>
          if currentLength > bestLength then (currentStart, currentLength)
          else (bestStart, bestLength))"

text \<open>The literal built from the groups and the run to compress.\<close>

definition compressed :: "string list \<Rightarrow> int \<times> nat \<Rightarrow> string" where
  "compressed cleanParts best =
     (case best of
        (bestStart, bestLength) \<Rightarrow>
          if bestLength \<ge> 2
          then (let beforeCompression = take (nat bestStart) cleanParts;
                    afterCompression = drop (nat bestStart + bestLength) cleanParts
                in if beforeCompression = [] \<and> afterCompression = [] then ''::''
                   else if beforeCompression = [] then ''::'' @ join '':'' afterCompression
                   else if afterCompression = [] then join '':'' beforeCompression @ ''::''
                   else join '':'' beforeCompression @ ''::'' @ join '':'' afterCompression)
          else join '':'' cleanParts)"

definition bigIntToIPv6 :: "int \<Rightarrow> string" where
  "bigIntToIPv6 bigInt =
     (let cleanParts = cleanPartsOf bigInt in compressed cleanParts (bestRun cleanParts))"

subsection \<open>Runs of zero groups\<close>

text \<open>
  \<open>zeroRun xs s l\<close>: the \<open>l\<close> groups of \<open>xs\<close> from index \<open>s\<close> on exist and are all
  \<open>0\<close>. The properties of the compression are stated with it.
\<close>

definition zeroRun :: "string list \<Rightarrow> nat \<Rightarrow> nat \<Rightarrow> bool" where
  "zeroRun xs s l = (s + l \<le> length xs \<and> list_all (\<lambda>g. g = ''0'') (take l (drop s xs)))"

text \<open>
  For the proof of the loop: the same within the first \<open>n\<close> groups, by index; the first
  longest run within them; and what the loop knows of the run that ends at the group it
  has just read.
\<close>

definition zerosIn :: "string list \<Rightarrow> nat \<Rightarrow> nat \<Rightarrow> nat \<Rightarrow> bool" where
  "zerosIn xs n s l = (s + l \<le> n \<and> (\<forall>k. s \<le> k \<and> k < s + l \<longrightarrow> xs ! k = ''0''))"

definition firstLongest :: "string list \<Rightarrow> nat \<Rightarrow> int \<Rightarrow> nat \<Rightarrow> bool" where
  "firstLongest xs n bs bl =
     ((0 < bl \<longrightarrow> 0 \<le> bs \<and> zerosIn xs n (nat bs) bl)
      \<and> (\<forall>s l. zerosIn xs n s l \<longrightarrow> l \<le> bl)
      \<and> (\<forall>s. 0 < bl \<and> zerosIn xs n s bl \<longrightarrow> nat bs \<le> s))"

definition trailing :: "string list \<Rightarrow> int \<Rightarrow> nat \<Rightarrow> bool" where
  "trailing xs cs cl =
     (cl \<le> length xs
      \<and> (\<forall>k. length xs - cl \<le> k \<and> k < length xs \<longrightarrow> xs ! k = ''0'')
      \<and> (cl < length xs \<longrightarrow> xs ! (length xs - cl - 1) \<noteq> ''0'')
      \<and> (cl = 0 \<longrightarrow> cs = - 1)
      \<and> (0 < cl \<longrightarrow> cs = int (length xs - cl)))"

subsection \<open>\<^verbatim>\<open>nextIP\<close>\<close>

text \<open>\<^verbatim>\<open>((parts[0] << 24) | (parts[1] << 16) | (parts[2] << 8) | parts[3]) >>> 0\<close>: the
  shifts and the disjunction work on 32 bits, and \<^verbatim>\<open>>>> 0\<close> reads the result unsigned.\<close>

definition ipv4Value :: "nat list \<Rightarrow> int" where
  "ipv4Value parts =
     uint ((push_bit 24 (word_of_nat (at parts 0)) OR push_bit 16 (word_of_nat (at parts 1))
            OR push_bit 8 (word_of_nat (at parts 2)) OR word_of_nat (at parts 3)) :: 32 word)"

text \<open>\<^verbatim>\<open>[(value >>> 24) & 0xff, (value >>> 16) & 0xff, (value >>> 8) & 0xff, value & 0xff]\<close>.\<close>

definition ipv4Octets :: "int \<Rightarrow> nat list" where
  "ipv4Octets v =
     (let w = word_of_int v :: 32 word
      in [unat (drop_bit 24 w AND 0xff), unat (drop_bit 16 w AND 0xff),
          unat (drop_bit 8 w AND 0xff), unat (w AND 0xff)])"

text \<open>The loop over \<^verbatim>\<open>hexParts\<close>: \<^verbatim>\<open>BigInt(parseInt(g, 16))\<close> throws on \<^verbatim>\<open>NaN\<close> and
  on \<^verbatim>\<open>Infinity\<close>, which is \<open>None\<close> here.\<close>

fun bigIntOfGroups :: "int \<Rightarrow> string list \<Rightarrow> int option" where
  "bigIntOfGroups bigIntValue [] = Some bigIntValue"
| "bigIntOfGroups bigIntValue (g # gs) =
     (case parseInt g 16 of
        None \<Rightarrow> None
      | Some hexValue \<Rightarrow> bigIntOfGroups (bigIntValue * 2 ^ 16 + hexValue) gs)"

text \<open>
  \<^verbatim>\<open>nextIP\<close>. Both \<^verbatim>\<open>catch\<close> blocks return \<^verbatim>\<open>null\<close>, so every exception of the IPv6
  branch is \<open>None\<close>.
\<close>

definition nextIP :: "string \<Rightarrow> bool \<Rightarrow> bool \<Rightarrow> string option" where
  "nextIP ipText increment enableIPv6 =
     (let ipAddr = isIP ipText in
      if ipAddr = 0 then None
      else if ipAddr = 4
      then (let parts = map Number (split_str ''.'' ipText);
                value0 = ipv4Value parts;
                value1 = (if increment then value0 + 1 else value0 - 1)
            in if value1 < 0 \<or> value1 > 0xffffffff then None
               else Some (join ''.'' (map dec_str (ipv4Octets value1))))
      else if ipAddr = 6 \<and> enableIPv6
      then (case expandIPv6 ipText of
              None \<Rightarrow> None
            | Some expandedIP \<Rightarrow>
                (case bigIntOfGroups 0 (split_str '':'' expandedIP) of
                   None \<Rightarrow> None
                 | Some bigIntValue \<Rightarrow>
                     (let result = (if increment then bigIntValue + 1 else bigIntValue - 1);
                          maxIPv6 = 2 ^ 128 - 1
                      in if result < 0 \<or> result > maxIPv6 then None
                         else Some (bigIntToIPv6 result))))
      else None)"

subsection \<open>Addresses as numbers\<close>

text \<open>
  The four octets of a 32-bit value, most significant first, and the address literal
  they print as. The program has no such function; the properties of \<^verbatim>\<open>nextIP\<close> and
  of the generators are stated with it.
\<close>

definition octetsOf :: "nat \<Rightarrow> nat list" where
  "octetsOf n = [n div 2 ^ 24 mod 256, n div 2 ^ 16 mod 256, n div 2 ^ 8 mod 256, n mod 256]"

definition dotted :: "nat \<Rightarrow> string" where
  "dotted n = join ''.'' (map dec_str (octetsOf n))"

section \<open>The target enumerator (\<^verbatim>\<open>utils/validate-domain-name.ts\<close>)\<close>

definition validateDomainName :: "string \<Rightarrow> bool" where
  "validateDomainName name =
     (name \<noteq> []
      \<and> list_all (\<lambda>c. isAlpha c \<or> isDigit c \<or> c = CHR ''-'' \<or> c = CHR ''.'') name)"

text \<open>The match of \<^verbatim>\<open>/^(\d+\.\d+\.\d+\.\d+)\/(\d{1,2})$/\<close>: the two groups.\<close>

definition cidrMatch :: "string \<Rightarrow> (string \<times> string) option" where
  "cidrMatch s =
     (case split_str ''/'' s of
        [baseIp, maskStr] \<Rightarrow>
          if length (split_str ''.'' baseIp) = 4
             \<and> list_all (\<lambda>p. p \<noteq> [] \<and> list_all isDigit p) (split_str ''.'' baseIp)
             \<and> list_all isDigit maskStr \<and> 1 \<le> length maskStr \<and> length maskStr \<le> 2
          then Some (baseIp, maskStr)
          else None
      | _ \<Rightarrow> None)"

text \<open>What the generators hand out and what they log, in order.\<close>

datatype Event = Yield Host | Warn string

definition targets :: "Event list \<Rightarrow> Host list" where
  "targets evs = concat (map (\<lambda>e. case e of Yield h \<Rightarrow> [h] | Warn w \<Rightarrow> []) evs)"

definition warnings :: "Event list \<Rightarrow> string list" where
  "warnings evs = concat (map (\<lambda>e. case e of Yield h \<Rightarrow> [] | Warn w \<Rightarrow> [w]) evs)"

text \<open>A member of a CIDR block as \<^verbatim>\<open>iterate\<close> tags it: the address of the value
  \<open>v\<close>, with the line as origin.\<close>

definition member :: "string \<Rightarrow> nat \<Rightarrow> Event" where
  "member line v = Yield \<lparr>Host.ip = Some (dotted v), Host.origin = line, type = CIDR\<rparr>"

text \<open>
  The expansion loop of \<^verbatim>\<open>iterate\<close>, with \<open>remaining\<close> iterations to go
  (\<^verbatim>\<open>Math.pow(2, max) - i\<close>) on the array \<^verbatim>\<open>current\<close>.
\<close>

fun cidrLoop :: "nat \<Rightarrow> nat list \<Rightarrow> string \<Rightarrow> Event list" where
  "cidrLoop 0 current trimmedLine = []"
| "cidrLoop (Suc remaining) current trimmedLine =
     (let ipStr = join ''.'' (map dec_str current);
          out = (if isIP ipStr \<noteq> 0
                 then [Yield \<lparr>Host.ip = Some ipStr, Host.origin = trimmedLine, type = CIDR\<rparr>]
                 else []);
          c3 = current[3 := at current 3 + 1]
      in if at c3 3 > 255
         then (let c2 = c3[3 := 0, 2 := at c3 2 + 1]
               in if at c2 2 > 255
                  then (let c1 = c2[2 := 0, 1 := at c2 1 + 1]
                        in if at c1 1 > 255 then out
                           else out @ cidrLoop remaining c1 trimmedLine)
                  else out @ cidrLoop remaining c2 trimmedLine)
         else out @ cidrLoop remaining c3 trimmedLine)"

text \<open>The body of the \<^verbatim>\<open>for await\<close> loop of \<^verbatim>\<open>iterate\<close>, for one line.\<close>

definition iterateLine :: "bool \<Rightarrow> string \<Rightarrow> Event list" where
  "iterateLine enableIPv6 line =
     (let trimmedLine = trim line in
      if trimmedLine = [] then []
      else if isIP trimmedLine = 4 \<or> (isIP trimmedLine = 6 \<and> enableIPv6)
      then [Yield \<lparr>Host.ip = Some trimmedLine, Host.origin = trimmedLine, type = IP\<rparr>]
      else (case cidrMatch trimmedLine of
              Some (baseIp, maskStr) \<Rightarrow>
                (case parseInt maskStr 10 of
                   None \<Rightarrow> []
                 | Some maskNum \<Rightarrow>
                     if maskNum \<ge> 0 \<and> maskNum \<le> 32
                     then cidrLoop (2 ^ nat (32 - maskNum))
                            (map Number (split_str ''.'' baseIp)) trimmedLine
                     else [])
            | None \<Rightarrow>
                if validateDomainName trimmedLine
                then [Yield \<lparr>Host.ip = None, Host.origin = trimmedLine, type = Domain\<rparr>]
                else [Warn (''Not a valid IP, CIDR, or domain: '' @ trimmedLine)]))"

text \<open>\<^verbatim>\<open>iterate\<close> on the lines \<^verbatim>\<open>readline\<close> cuts the stream into.\<close>

definition iterate :: "string list \<Rightarrow> bool \<Rightarrow> Event list" where
  "iterate lines enableIPv6 = concat (map (iterateLine enableIPv6) lines)"

definition MAX_SAFE_INTEGER :: nat where
  "MAX_SAFE_INTEGER = 2 ^ 53 - 1"

text \<open>
  The walk loop of \<^verbatim>\<open>iterateAddr\<close> at index \<open>i\<close> with the two watermarks. The
  generator is lazy: \<open>pulls\<close> is how many more targets the consumer asks for.
\<close>

fun walk :: "nat \<Rightarrow> nat \<Rightarrow> string \<Rightarrow> string \<Rightarrow> Host list" where
  "walk 0 i lowIP highIP = []"
| "walk (Suc pulls) i lowIP highIP =
     (if i < MAX_SAFE_INTEGER
      then (if i mod 2 = 0
            then (let low1 = js_or (nextIP lowIP False True) lowIP
                  in \<lparr>Host.ip = Some low1, Host.origin = low1, type = IP\<rparr>
                     # walk pulls (i + 1) low1 highIP)
            else (let high1 = js_or (nextIP highIP True True) highIP
                  in \<lparr>Host.ip = Some high1, Host.origin = high1, type = IP\<rparr>
                     # walk pulls (i + 1) lowIP high1))
      else [])"

text \<open>
  \<^verbatim>\<open>iterateAddr\<close>: the first \<open>pulls\<close> targets. \<open>lookup\<close> is \<^verbatim>\<open>lookupIP\<close>, the DNS
  collaborator.
\<close>

definition iterateAddr :: "(string \<Rightarrow> string option) \<Rightarrow> string \<Rightarrow> nat \<Rightarrow> Host list" where
  "iterateAddr lookup addr pulls =
     (if cidrMatch addr \<noteq> None then take pulls (targets (iterate [addr] True))
      else if isIP addr \<noteq> 0
      then take pulls (\<lparr>Host.ip = Some addr, Host.origin = addr, type = IP\<rparr>
                       # walk (pulls - 1) 0 addr addr)
      else (case lookup addr of
              None \<Rightarrow> []
            | Some resolvedIP \<Rightarrow>
                if resolvedIP = [] then []
                else take pulls (\<lparr>Host.ip = Some resolvedIP, Host.origin = addr, type = IP\<rparr>
                                 # walk (pulls - 1) 0 resolvedIP resolvedIP)))"

text \<open>
  The walk from an IPv4 seed in closed form. \<open>ipHost a\<close> is the target the walk yields
  for the address \<open>a\<close>; \<open>walkTarget i lo hi j\<close> is the target expected \<open>j\<close> steps after
  the loop is at index \<open>i\<close> with the watermarks at the 32-bit values \<open>lo\<close> and \<open>hi\<close>: the
  low side moves down by one at each even index and stays at 0, the high side moves up by
  one at each odd index and stays at \<open>2^32 - 1\<close>.
\<close>

definition ipHost :: "string \<Rightarrow> Host" where
  "ipHost a = \<lparr>Host.ip = Some a, Host.origin = a, type = IP\<rparr>"

definition walkTarget :: "nat \<Rightarrow> nat \<Rightarrow> nat \<Rightarrow> nat \<Rightarrow> Host" where
  "walkTarget i lo hi j =
     (if even (i + j) then ipHost (dotted (lo - (j + 2 - i mod 2) div 2))
      else ipHost (dotted (min (hi + (j + 1 + i mod 2) div 2) 4294967295)))"

section \<open>The capability prober (\<^verbatim>\<open>scanner/scanner.service.ts\<close>)\<close>

subsection \<open>What the network hands back\<close>

text \<open>
  The organisation of a certificate's issuer is one string or an array of them
  (\<^verbatim>\<open>Array.isArray(cert.issuer.O)\<close>).
\<close>

datatype OrgField = OrgOne string | OrgMany "string list"

record CertSubject =
  CN :: "string option"

record CertIssuer =
  org :: "OrgField option"

record PeerCertificate =
  subject :: "CertSubject option"
  issuer :: "CertIssuer option"

text \<open>
  A connected TLS socket, read through \<^verbatim>\<open>getProtocol()\<close>, \<^verbatim>\<open>alpnProtocol\<close> and
  \<^verbatim>\<open>getPeerCertificate(false)\<close>; \<open>None\<close> stands for \<^verbatim>\<open>null\<close>, \<^verbatim>\<open>undefined\<close> and
  \<^verbatim>\<open>false\<close>.
\<close>

record TLSSocket =
  getProtocol :: "string option"
  alpnProtocol :: "string option"
  getPeerCertificate :: "PeerCertificate option"

text \<open>
  The collaborators of \<^verbatim>\<open>scanTLS\<close>. \<^verbatim>\<open>lookupIP\<close> and \<^verbatim>\<open>getGeo\<close> catch their own
  errors and always return. \<^verbatim>\<open>createConnection\<close> and \<^verbatim>\<open>performTLSHandshake\<close> return
  promises that reject on an error or a timeout: \<open>Inl\<close> carries the message of the
  rejection, which \<^verbatim>\<open>await\<close> throws. The handshake is given the address and the server
  name (present only for a domain host).
\<close>

record Network =
  lookupIP :: "string \<Rightarrow> string option"
  createConnection :: "string \<Rightarrow> nat \<Rightarrow> string + unit"
  performTLSHandshake :: "string \<Rightarrow> string option \<Rightarrow> string + TLSSocket"
  getGeo :: "string \<Rightarrow> string"

definition port :: nat where
  "port = 443"

subsection \<open>\<^verbatim>\<open>isFeasible\<close>\<close>

definition isFeasible :: "string option \<Rightarrow> string \<Rightarrow> string \<Rightarrow> string \<Rightarrow> bool" where
  "isFeasible protocol alpnName domainName issuers =
     (protocol = Some ''TLSv1.3'' \<and> alpnName = ''h2''
      \<and> length domainName > 0 \<and> length issuers > 0)"

subsection \<open>\<^verbatim>\<open>scanTLS\<close>\<close>

text \<open>The address the scan goes on with after the first \<^verbatim>\<open>if (!host.ip)\<close>; \<open>None\<close> when
  the lookup failed and the function returns \<^verbatim>\<open>null\<close>.\<close>

definition resolveHost :: "Network \<Rightarrow> Host \<Rightarrow> string option" where
  "resolveHost net host =
     (if falsy (Host.ip host)
      then (let resolvedIP = lookupIP net (Host.origin host)
            in if falsy resolvedIP then None else resolvedIP)
      else Host.ip host)"

definition issuersOf :: "PeerCertificate \<Rightarrow> string" where
  "issuersOf cert =
     (case PeerCertificate.issuer cert of
        None \<Rightarrow> []
      | Some i \<Rightarrow>
          (case org i of
             None \<Rightarrow> []
           | Some (OrgOne s) \<Rightarrow> s
           | Some (OrgMany xs) \<Rightarrow> join '' | '' xs))"

text \<open>
  The body of the outer \<^verbatim>\<open>try\<close>. \<open>Inl\<close> is an exception on its way to the
  \<^verbatim>\<open>catch\<close>; \<open>Inr\<close> is a \<^verbatim>\<open>return\<close>. The two \<^verbatim>\<open>finally\<close> blocks only destroy the
  sockets and change no result.
\<close>

definition scanTLS_try :: "Network \<Rightarrow> Host \<Rightarrow> string + TLSScanResult option" where
  "scanTLS_try net host =
     (case resolveHost net host of
        None \<Rightarrow> Inr None
      | Some hostIp \<Rightarrow>
          (case createConnection net hostIp port of
             Inl err \<Rightarrow> Inl err
           | Inr socket \<Rightarrow>
               (case performTLSHandshake net hostIp
                       (if Host.type host = Domain then Some (Host.origin host) else None) of
                  Inl err \<Rightarrow> Inl err
                | Inr tlsSocket \<Rightarrow>
                    (case getPeerCertificate tlsSocket of
                       None \<Rightarrow> Inr None
                     | Some cert \<Rightarrow>
                         (case subject cert of
                            None \<Rightarrow> Inr None
                          | Some subj \<Rightarrow>
                              (let protocol = getProtocol tlsSocket;
                                   alpnName = js_or (alpnProtocol tlsSocket) [];
                                   domainName = js_or (CN subj) [];
                                   issuers = issuersOf cert;
                                   geo = getGeo net hostIp;
                                   isFeas = isFeasible protocol alpnName domainName issuers
                               in Inr (Some \<lparr>TLSScanResult.ip = hostIp,
                                     TLSScanResult.origin = Host.origin host,
                                     domain = domainName,
                                     TLSScanResult.issuer = issuers,
                                     geoCode = geo,
                                     feasible = isFeas,
                                     tlsVersion = js_or protocol ''unknown'',
                                     alpn = js_or (Some alpnName) ''none''\<rparr>)))))))"

text \<open>\<^verbatim>\<open>scanTLS\<close>: the \<^verbatim>\<open>catch\<close> turns every exception of the body into
  \<^verbatim>\<open>return null\<close>. The result keeps the sum type, so that "no exception leaves the
  function" is a statement about its value.\<close>

definition scanTLS :: "Network \<Rightarrow> Host \<Rightarrow> string + TLSScanResult option" where
  "scanTLS net host =
     (case scanTLS_try net host of
        Inl err \<Rightarrow> Inr None
      | Inr result \<Rightarrow> Inr result)"

subsection \<open>\<^verbatim>\<open>formatScanResult\<close> and \<^verbatim>\<open>generateCSVOutput\<close>\<close>

definition formatScanResult :: "TLSScanResult \<Rightarrow> string" where
  "formatScanResult result =
     (if \<not> feasible result then []
      else join '',''
             [TLSScanResult.ip result,
              TLSScanResult.origin result,
              domain result,
              [CHR 0x22] @ TLSScanResult.issuer result @ [CHR 0x22],
              geoCode result] @ [CHR 0x0A])"

definition generateCSVOutput :: "TLSScanResult list \<Rightarrow> string" where
  "generateCSVOutput results =
     (let feasibleResults = filter feasible results;
          header = ''IP,Origin,Domain,Issuer,GeoCode'' @ [CHR 0x0A];
          rows = concat (map formatScanResult feasibleResults)
      in header @ rows)"

section \<open>The scan session (\<^verbatim>\<open>app.service.ts\<close>)\<close>

text \<open>
  The fields of \<^verbatim>\<open>AppService\<close> the workers share. The output file is the text written
  to it so far, \<open>None\<close> when no file is open.
\<close>

record ScanSession =
  outputFile :: "string option"
  scanCount :: nat
  feasibleCount :: nat
  activeWorkers :: nat
  isShuttingDown :: bool

definition setupOutputFile :: "string \<Rightarrow> ScanSession \<Rightarrow> ScanSession" where
  "setupOutputFile outputPath s =
     (if outputPath \<noteq> []
      then s\<lparr>outputFile := Some (''IP,ORIGIN,CERT_DOMAIN,CERT_ISSUER,GEO_CODE'' @ [CHR 0x0A])\<rparr>
      else s)"

text \<open>
  What one iteration of \<^verbatim>\<open>scannerWorker\<close> does with the result of its
  \<^verbatim>\<open>scanTLS\<close> call: count the scan, and for a feasible result count it and append its
  line to the file.
\<close>

definition account :: "TLSScanResult option \<Rightarrow> ScanSession \<Rightarrow> ScanSession" where
  "account result s =
     (let s1 = s\<lparr>scanCount := scanCount s + 1\<rparr>
      in case result of
           None \<Rightarrow> s1
         | Some r \<Rightarrow>
             if feasible r
             then (let s2 = s1\<lparr>feasibleCount := feasibleCount s1 + 1\<rparr>
                   in case outputFile s2 of
                        None \<Rightarrow> s2
                      | Some written \<Rightarrow>
                          (let csvLine = formatScanResult r
                           in if csvLine \<noteq> []
                              then s2\<lparr>outputFile := Some (written @ csvLine)\<rparr>
                              else s2))
             else s1)"

subsection \<open>An example network\<close>

text \<open>A server that completes the handshake with TLS 1.3 and HTTP/2 and presents a
  certificate, and a host to scan on it. The closed instances below run on them.\<close>

definition exampleSocket :: TLSSocket where
  "exampleSocket =
     \<lparr>getProtocol = Some ''TLSv1.3'',
      alpnProtocol = Some ''h2'',
      getPeerCertificate =
        Some \<lparr>subject = Some \<lparr>CN = Some ''example.com''\<rparr>,
              PeerCertificate.issuer = Some \<lparr>org = Some (OrgOne ''Example CA'')\<rparr>\<rparr>\<rparr>"

definition exampleNet :: Network where
  "exampleNet =
     \<lparr>lookupIP = (\<lambda>name. if name = ''example.com'' then Some ''192.0.2.7'' else None),
      createConnection = (\<lambda>addr p. Inr ()),
      performTLSHandshake = (\<lambda>addr servername. Inr exampleSocket),
      getGeo = (\<lambda>addr. ''N/A'')\<rparr>"

text \<open>A resolver that knows no name.\<close>

definition noLookup :: "string \<Rightarrow> string option" where
  "noLookup name = None"

definition exampleHost :: Host where
  "exampleHost = \<lparr>Host.ip = None, Host.origin = ''example.com'', type = Domain\<rparr>"

definition exampleResult :: TLSScanResult where
  "exampleResult =
     \<lparr>TLSScanResult.ip = ''192.0.2.7'',
      TLSScanResult.origin = ''example.com'',
      domain = ''example.com'',
      TLSScanResult.issuer = ''Example CA'',
      geoCode = ''N/A'',
      feasible = True,
      tlsVersion = ''TLSv1.3'',
      alpn = ''h2''\<rparr>"

text \<open>
  A server for each combination of the four clauses: TLS 1.3 or TLS 1.2, HTTP/2 or
  HTTP/1.1 over ALPN, a certificate with or without a common name, and with or without an
  issuer organisation; and the example network with a given socket as the outcome of the
  handshake.
\<close>

definition socketWith :: "bool \<Rightarrow> bool \<Rightarrow> bool \<Rightarrow> bool \<Rightarrow> TLSSocket" where
  "socketWith b1 b2 b3 b4 =
     \<lparr>getProtocol = Some (if b1 then ''TLSv1.3'' else ''TLSv1.2''),
      alpnProtocol = Some (if b2 then ''h2'' else ''http/1.1''),
      getPeerCertificate =
        Some \<lparr>subject = Some \<lparr>CN = (if b3 then Some ''example.com'' else None)\<rparr>,
              PeerCertificate.issuer =
                Some \<lparr>org = (if b4 then Some (OrgOne ''Example CA'') else None)\<rparr>\<rparr>\<rparr>"

definition netWith :: "TLSSocket \<Rightarrow> Network" where
  "netWith tlsSocket = exampleNet\<lparr>performTLSHandshake := (\<lambda>addr servername. Inr tlsSocket)\<rparr>"


section \<open>Integers that are doubles\<close>

lemma bitLength_le: "bitLength n \<le> k \<longleftrightarrow> n < 2 ^ k"
proof (induction k arbitrary: n)
  case 0
  show ?case by (subst bitLength.simps) simp
next
  case (Suc k)
  have "n div 2 < 2 ^ k \<longleftrightarrow> n < 2 ^ Suc k" by auto
  with Suc [of "n div 2"] show ?case by (subst bitLength.simps) simp
qed

lemma toDouble_small: "n < 2 ^ 53 \<Longrightarrow> toDouble n = Some n"
  by (simp add: toDouble_def bitLength_le)

lemma toDouble_small_numeral [simp]:
  "numeral k < (9007199254740992::nat) \<Longrightarrow> toDouble (numeral k) = Some (numeral k)"
  "toDouble 0 = Some 0" "toDouble 1 = Some 1" "toDouble (Suc 0) = Some (Suc 0)"
  by (simp_all add: toDouble_small)

text \<open>Above \<open>2^53\<close> the value read is rounded: \<open>2^53 + 1\<close> goes down to \<open>2^53\<close> and
  \<open>2^53 + 3\<close> up to \<open>2^53 + 4\<close>.\<close>

lemma bitLength_example: "bitLength 9007199254740993 = 54"
  by (simp add: bitLength.simps)

lemma parseInt_rounds:
  "parseInt ''1fffffffffffff'' 16 = Some 9007199254740991"
  "parseInt ''20000000000001'' 16 = Some 9007199254740992"
  "parseInt ''20000000000003'' 16 = Some 9007199254740996"
  by (simp_all add: parseInt_def isSpace_def digitVal_def toDouble_def bitLength_example
        bitLength.simps Let_def)

section \<open>Decimal digits and dotted addresses\<close>

lemma lt10_cases: "d < (10::nat) \<Longrightarrow> d \<in> {0,1,2,3,4,5,6,7,8,9}"
  by auto

lemma digitChar_dec:
  assumes "d < 10"
  shows "isDigit (''0123456789'' ! d)"
    and "digitVal (''0123456789'' ! d) = d"
  using lt10_cases [OF assms] by (auto simp: isDigit_def digitVal_def)

lemma isDigit_digitVal:
  assumes "isDigit c"
  shows "digitVal c < 10" and "''0123456789'' ! digitVal c = c"
  using assms by (auto simp: isDigit_def digitVal_def)

lemma dec_str_small: "n < 10 \<Longrightarrow> dec_str n = [''0123456789'' ! n]"
  by (subst dec_str.simps) simp

lemma dec_str_large:
  "\<not> n < 10 \<Longrightarrow>
   dec_str n = dec_str (n div 10) @ [''0123456789'' ! (n mod 10)]"
  by (subst dec_str.simps) simp

lemma Number_snoc: "Number (s @ [c]) = 10 * Number s + digitVal c"
  by (simp add: Number_def)

lemma Number_dec_str: "Number (dec_str n) = n"
proof (induction n rule: less_induct)
  case (less n)
  show ?case
  proof (cases "n < 10")
    case True
    then show ?thesis by (simp add: dec_str_small Number_def digitChar_dec)
  next
    case False
    then have "n div 10 < n" by simp
    from less [OF this] False show ?thesis
      by (simp add: dec_str_large Number_snoc digitChar_dec)
  qed
qed

lemma dec_str_digits: "list_all isDigit (dec_str n)"
proof (induction n rule: less_induct)
  case (less n)
  show ?case
  proof (cases "n < 10")
    case True
    then show ?thesis by (simp add: dec_str_small digitChar_dec)
  next
    case False
    then have "n div 10 < n" by simp
    from less [OF this] False show ?thesis
      by (simp add: dec_str_large digitChar_dec)
  qed
qed

lemma dec_str_nonempty: "dec_str n \<noteq> []"
  by (subst dec_str.simps) simp

lemma dec_str_length_small: "n < 10 \<Longrightarrow> length (dec_str n) = 1"
  by (simp add: dec_str_small)

lemma hd_dec_str: "0 < n \<Longrightarrow> hd (dec_str n) \<noteq> CHR ''0''"
proof (induction n rule: less_induct)
  case (less n)
  show ?case
  proof (cases "n < 10")
    case True
    with less.prems lt10_cases [of n] show ?thesis by (auto simp: dec_str_small)
  next
    case False
    then have "n div 10 < n" "0 < n div 10" by auto
    from less.IH [OF this] False show ?thesis
      by (simp add: dec_str_large dec_str_nonempty)
  qed
qed

lemma Number_pos:
  "s \<noteq> [] \<Longrightarrow> list_all isDigit s \<Longrightarrow> hd s \<noteq> CHR ''0'' \<Longrightarrow> 0 < Number s"
proof (induction s rule: rev_induct)
  case Nil
  then show ?case by simp
next
  case (snoc c s)
  show ?case
  proof (cases "s = []")
    case True
    with snoc.prems show ?thesis by (auto simp: Number_def isDigit_def digitVal_def)
  next
    case False
    with snoc show ?thesis by (simp add: Number_snoc)
  qed
qed

lemma dec_str_Number:
  "s \<noteq> [] \<Longrightarrow> list_all isDigit s \<Longrightarrow> length s = 1 \<or> hd s \<noteq> CHR ''0''
   \<Longrightarrow> dec_str (Number s) = s"
proof (induction s rule: rev_induct)
  case Nil
  then show ?case by simp
next
  case (snoc c s)
  then have c: "isDigit c" and ds: "list_all isDigit s" by auto
  show ?case
  proof (cases "s = []")
    case True
    with c show ?thesis
      by (simp add: Number_def dec_str_small isDigit_digitVal)
  next
    case False
    with snoc.prems have h: "hd s \<noteq> CHR ''0''" by auto
    from Number_pos [OF False ds h] have pos: "0 < Number s" .
    have dv: "digitVal c < 10" using c by (rule isDigit_digitVal)
    from pos dv have big: "\<not> Number (s @ [c]) < 10" by (simp add: Number_snoc)
    from dv have "Number (s @ [c]) div 10 = Number s" "Number (s @ [c]) mod 10 = digitVal c"
      by (simp_all add: Number_snoc)
    with big snoc.IH [OF False ds] h c show ?thesis
      by (simp add: dec_str_large isDigit_digitVal)
  qed
qed

lemma v4Seg_dec_str: "n \<le> 255 \<Longrightarrow> v4Seg (dec_str n)"
proof -
  assume n: "n \<le> 255"
  have "length (dec_str n) = 1 \<or> hd (dec_str n) \<noteq> CHR ''0''"
  proof (cases "n = 0")
    case True
    then show ?thesis by (simp add: dec_str_small)
  next
    case False
    then show ?thesis by (simp add: hd_dec_str)
  qed
  with n show ?thesis
    by (simp add: v4Seg_def dec_str_nonempty dec_str_digits Number_dec_str)
qed

lemma v4Seg_canonical: "v4Seg p \<Longrightarrow> dec_str (Number p) = p \<and> Number p \<le> 255"
  by (simp add: v4Seg_def dec_str_Number)

lemma not_isDigit_dot: "\<not> isDigit CHR ''.''"
  by (simp add: isDigit_def)

lemma isDigit_not_dot: "list_all isDigit p \<Longrightarrow> CHR ''.'' \<notin> set p"
  using not_isDigit_dot by (induction p) auto

section \<open>\<open>split\<close> and \<open>join\<close> on one separator character\<close>

lemma split_str_nonempty: "split_str sep s \<noteq> []"
  by (induction sep s rule: split_str.induct) (auto split: list.splits)

lemma join_Cons: "ps \<noteq> [] \<Longrightarrow> join sep (p # ps) = p @ sep @ join sep ps"
  by (cases ps) simp_all

lemma join_Cons_hd: "join sep ((c # p) # ps) = c # join sep (p # ps)"
  by (cases ps) simp_all

lemma join_split_chr: "join [d] (split_str [d] s) = s"
proof (induction s)
  case Nil
  then show ?case by simp
next
  case (Cons c cs)
  show ?case
  proof (cases "c = d")
    case True
    with Cons show ?thesis by (simp add: join_Cons split_str_nonempty)
  next
    case False
    obtain p ps where e: "split_str [d] cs = p # ps"
      using split_str_nonempty [of "[d]" cs] by (cases "split_str [d] cs") auto
    with Cons False show ?thesis by (simp add: join_Cons_hd)
  qed
qed

lemma split_chr_no_sep: "d \<notin> set p \<Longrightarrow> split_str [d] p = [p]"
  by (induction p) auto

lemma split_chr_append:
  "d \<notin> set p \<Longrightarrow> split_str [d] (p @ d # s) = p # split_str [d] s"
  by (induction p) auto

lemma split_join_chr:
  "ps \<noteq> [] \<Longrightarrow> \<forall>p\<in>set ps. d \<notin> set p \<Longrightarrow> split_str [d] (join [d] ps) = ps"
proof (induction ps)
  case Nil
  then show ?case by simp
next
  case (Cons p ps)
  show ?case
  proof (cases "ps = []")
    case True
    with Cons.prems show ?thesis by (simp add: split_chr_no_sep)
  next
    case False
    with Cons show ?thesis by (simp add: join_Cons split_chr_append)
  qed
qed

lemma split_str_chars:
  "x \<in> set s \<Longrightarrow> x \<notin> set sep \<Longrightarrow> \<exists>p\<in>set (split_str sep s). x \<in> set p"
proof (induction sep s rule: split_str.induct)
  case (1 sep)
  then show ?case by simp
next
  case (2 sep c cs)
  show ?case
  proof (cases "sep \<noteq> [] \<and> take (length sep) (c # cs) = sep")
    case True
    then have "c # cs = sep @ drop (length sep) (c # cs)"
      by (metis append_take_drop_id)
    with "2.prems" have "x \<in> set (drop (length sep) (c # cs))"
      by (metis Un_iff set_append)
    from "2.IH"(1) [OF True this "2.prems"(2)] True show ?thesis by auto
  next
    case False
    obtain p ps where e: "split_str sep cs = p # ps"
      using split_str_nonempty [of sep cs] by (cases "split_str sep cs") auto
    show ?thesis
    proof (cases "x = c")
      case True
      with False e show ?thesis by auto
    next
      case xc: False
      with "2.prems" have "x \<in> set cs" by simp
      from "2.IH"(2) [OF False this "2.prems"(2)] e False show ?thesis by auto
    qed
  qed
qed

section \<open>Octets and 32-bit values\<close>

lemma or_push_bit_add:
  fixes x y :: nat
  assumes "x < 2 ^ n"
  shows "x OR push_bit n y = x + push_bit n y"
proof -
  have "int x OR push_bit n (int y) = concat_bit n (int x) (int y)"
    using assms by (simp add: concat_bit_def take_bit_int_eq_self)
  also have "\<dots> = int x + push_bit n (int y)"
    using assms by (simp add: concat_bit_eq take_bit_int_eq_self)
  finally have "int (x OR push_bit n y) = int (x + push_bit n y)"
    by (simp add: of_nat_or_eq of_nat_push_bit)
  then show ?thesis by (simp only: of_nat_eq_iff)
qed

lemma pack_octets_nat:
  fixes a b c d :: nat
  assumes "a < 256" "b < 256" "c < 256" "d < 256"
  shows "push_bit 24 a OR push_bit 16 b OR push_bit 8 c OR d
         = a * 2 ^ 24 + b * 2 ^ 16 + c * 2 ^ 8 + d"
proof -
  have 1: "d OR push_bit 8 c = d + push_bit 8 c"
    using assms by (intro or_push_bit_add) simp
  have "d + push_bit 8 c < 2 ^ 16" using assms by (simp add: push_bit_eq_mult)
  then have 2: "(d + push_bit 8 c) OR push_bit 16 b = d + push_bit 8 c + push_bit 16 b"
    by (rule or_push_bit_add)
  have "d + push_bit 8 c + push_bit 16 b < 2 ^ 24" using assms by (simp add: push_bit_eq_mult)
  then have 3: "(d + push_bit 8 c + push_bit 16 b) OR push_bit 24 a
                = d + push_bit 8 c + push_bit 16 b + push_bit 24 a"
    by (rule or_push_bit_add)
  have "push_bit 24 a OR push_bit 16 b OR push_bit 8 c OR d
        = ((d OR push_bit 8 c) OR push_bit 16 b) OR push_bit 24 a"
    by (simp add: ac_simps)
  also have "\<dots> = d + push_bit 8 c + push_bit 16 b + push_bit 24 a"
    by (simp only: 1 2 3)
  finally show ?thesis by (simp add: push_bit_eq_mult)
qed

lemma uint_word_of_nat_32: "n < 2 ^ 32 \<Longrightarrow> uint (word_of_nat n :: 32 word) = int n"
  by (simp add: unsigned_of_nat take_bit_nat_eq_self)

lemma ipv4Value_octets:
  assumes "a < 256" "b < 256" "c < 256" "d < 256"
  shows "ipv4Value [a, b, c, d] = int (a * 2 ^ 24 + b * 2 ^ 16 + c * 2 ^ 8 + d)"
proof -
  let ?n = "a * 2 ^ 24 + b * 2 ^ 16 + c * 2 ^ 8 + d"
  have lt: "?n < 2 ^ 32" using assms by simp
  have "(push_bit 24 (word_of_nat a) OR push_bit 16 (word_of_nat b)
            OR push_bit 8 (word_of_nat c) OR word_of_nat d :: 32 word)
        = word_of_nat (push_bit 24 a OR push_bit 16 b OR push_bit 8 c OR d)"
    by (simp only: of_nat_or_eq of_nat_push_bit)
  also have "\<dots> = word_of_nat ?n"
    by (simp only: pack_octets_nat [OF assms])
  finally have "ipv4Value [a, b, c, d] = uint (word_of_nat ?n :: 32 word)"
    by (simp add: ipv4Value_def at_def)
  also have "\<dots> = int ?n"
    using lt by (rule uint_word_of_nat_32)
  finally show ?thesis .
qed

lemma ipv4Octets_value:
  assumes "0 \<le> v" "v < 2 ^ 32"
  shows "ipv4Octets v = [nat v div 2 ^ 24 mod 256, nat v div 2 ^ 16 mod 256,
                         nat v div 2 ^ 8 mod 256, nat v mod 256]"
proof -
  have w: "unat (word_of_int v :: 32 word) = nat v"
    using assms by (simp add: unat_eq_nat_uint uint_word_of_int)
  have m: "\<And>n::nat. n AND 255 = n mod 256"
  proof -
    fix n :: nat
    have "n AND mask 8 = n mod 2 ^ 8"
      by (simp only: take_bit_eq_mask [symmetric] take_bit_eq_mod)
    then show "n AND 255 = n mod 256" by (simp add: mask_eq_exp_minus_1)
  qed
  have "ipv4Octets v = [drop_bit 24 (nat v) AND 255, drop_bit 16 (nat v) AND 255,
                        drop_bit 8 (nat v) AND 255, nat v AND 255]"
    unfolding ipv4Octets_def Let_def
    by (simp only: unsigned_and_eq unat_drop_bit_eq w) simp
  then show ?thesis
    by (simp only: m drop_bit_eq_div)
qed

section \<open>Dotted addresses\<close>

lemma pack_div: "r < m \<Longrightarrow> (q * m + r) div m = (q::nat)"
  by simp

lemma pack_mod: "r < m \<Longrightarrow> (q * m + r) mod m = (r::nat)"
  by simp

lemma octetsOf_pack:
  assumes "a < 256" "b < 256" "c < 256" "d < 256"
  shows "octetsOf (a * 2 ^ 24 + b * 2 ^ 16 + c * 2 ^ 8 + d) = [a, b, c, d]"
proof -
  let ?N = "a * 2 ^ 24 + b * 2 ^ 16 + c * 2 ^ 8 + d"
  have e3: "?N = a * 16777216 + (b * 65536 + c * 256 + d)" by simp
  have e2: "?N = (a * 256 + b) * 65536 + (c * 256 + d)" by simp
  have e1: "?N = (a * 65536 + b * 256 + c) * 256 + d" by simp
  have r3: "b * 65536 + c * 256 + d < 16777216" using assms by simp
  have r2: "c * 256 + d < 65536" using assms by simp
  have d3: "?N div 16777216 = a" by (simp only: e3 pack_div [OF r3])
  have d2: "?N div 65536 = a * 256 + b" by (simp only: e2 pack_div [OF r2])
  have d1: "?N div 256 = a * 65536 + b * 256 + c" by (simp only: e1 pack_div [OF assms(4)])
  have m0: "?N mod 256 = d" by (simp only: e1 pack_mod [OF assms(4)])
  have m1: "(a * 65536 + b * 256 + c) mod 256 = c"
  proof -
    have "a * 65536 + b * 256 + c = (a * 256 + b) * 256 + c" by simp
    then show ?thesis by (simp only: pack_mod [OF assms(3)])
  qed
  have m2: "(a * 256 + b) mod 256 = b" by (rule pack_mod [OF assms(2)])
  have m3: "a mod 256 = a" using assms by simp
  have "octetsOf ?N = [?N div 16777216 mod 256, ?N div 65536 mod 256, ?N div 256 mod 256,
                       ?N mod 256]"
    by (simp add: octetsOf_def)
  then show ?thesis by (simp only: d3 d2 d1 m0 m1 m2 m3)
qed

lemma octets_lt: "x \<in> set (octetsOf n) \<Longrightarrow> x < 256"
  by (auto simp: octetsOf_def)

lemma horner_octets:
  "C * 2 ^ 24 + B * 2 ^ 16 + A * 2 ^ 8 + r = ((C * 256 + B) * 256 + A) * 256 + (r::nat)"
  by simp

lemma octets_roundtrip:
  fixes n :: nat
  assumes "n < 2 ^ 32"
  shows "(n div 2 ^ 24 mod 256) * 2 ^ 24 + (n div 2 ^ 16 mod 256) * 2 ^ 16
         + (n div 2 ^ 8 mod 256) * 2 ^ 8 + n mod 256 = n"
proof -
  let ?A = "n div 256"
  let ?B = "?A div 256"
  let ?C = "?B div 256"
  have a: "n div 2 ^ 8 = ?A" by simp
  have b: "n div 2 ^ 16 = ?B" by (simp add: div_mult2_eq [symmetric])
  have c: "n div 2 ^ 24 = ?C" by (simp add: div_mult2_eq [symmetric])
  have "n div 2 ^ 24 < 256" using assms by (simp add: less_mult_imp_div_less)
  then have cm: "?C mod 256 = ?C" by (simp add: c)
  have 1: "n = ?A * 256 + n mod 256" by simp
  have 2: "?A = ?B * 256 + ?A mod 256" by simp
  have 3: "?B = ?C * 256 + ?B mod 256" by simp
  have "?C * 2 ^ 24 + (?B mod 256) * 2 ^ 16 + (?A mod 256) * 2 ^ 8 + n mod 256
        = ((?C * 256 + ?B mod 256) * 256 + ?A mod 256) * 256 + n mod 256"
    by (rule horner_octets)
  also have "\<dots> = n" by (simp only: div_mult_mod_eq)
  finally show ?thesis by (simp only: a b c cm)
qed

lemma dotted_parts:
  assumes "a \<le> 255" "b \<le> 255" "c \<le> 255" "d \<le> 255"
  shows "split_str ''.'' (join ''.'' (map dec_str [a, b, c, d])) = map dec_str [a, b, c, d]"
  by (rule split_join_chr) (simp_all add: isDigit_not_dot dec_str_digits)

lemma isIPv4_join:
  assumes "a \<le> 255" "b \<le> 255" "c \<le> 255" "d \<le> 255"
  shows "isIPv4 (join ''.'' (map dec_str [a, b, c, d]))"
  unfolding isIPv4_def Let_def dotted_parts [OF assms]
  using assms by (simp add: v4Seg_dec_str)

lemma Number_parts_join:
  assumes "a \<le> 255" "b \<le> 255" "c \<le> 255" "d \<le> 255"
  shows "map Number (split_str ''.'' (join ''.'' (map dec_str [a, b, c, d]))) = [a, b, c, d]"
  unfolding dotted_parts [OF assms] by (simp add: Number_dec_str)

lemma isIPv4_canonical:
  assumes "isIPv4 s"
  shows "\<exists>a b c d. a \<le> 255 \<and> b \<le> 255 \<and> c \<le> 255 \<and> d \<le> 255
           \<and> s = join ''.'' (map dec_str [a, b, c, d])"
proof -
  from assms obtain p0 p1 p2 p3 where
    parts: "split_str ''.'' s = [p0, p1, p2, p3]" and
    segs: "v4Seg p0" "v4Seg p1" "v4Seg p2" "v4Seg p3"
    unfolding isIPv4_def Let_def
    by (auto simp: eval_nat_numeral length_Suc_conv)
  have "s = join ''.'' (split_str ''.'' s)" by (simp add: join_split_chr)
  also have "\<dots> = join ''.'' (map dec_str [Number p0, Number p1, Number p2, Number p3])"
    using segs by (simp add: parts v4Seg_canonical)
  finally show ?thesis using segs v4Seg_canonical by blast
qed

lemma mod256_le: "(x::nat) mod 256 \<le> 255"
proof -
  have "x mod 256 < 256" by simp
  then show ?thesis by linarith
qed

lemma isIPv4_dotted: "isIPv4 (dotted n)"
  unfolding dotted_def octetsOf_def
  by (rule isIPv4_join; rule mod256_le)

lemma isIP_dotted: "isIP (dotted n) = 4"
  by (simp add: isIP_def isIPv4_dotted)

lemma parts_dotted: "map Number (split_str ''.'' (dotted n)) = octetsOf n"
  unfolding dotted_def octetsOf_def
  by (rule Number_parts_join; rule mod256_le)

lemma ipv4Value_octetsOf: "n < 2 ^ 32 \<Longrightarrow> ipv4Value (octetsOf n) = int n"
proof -
  assume n: "n < 2 ^ 32"
  have "ipv4Value (octetsOf n)
        = int ((n div 2 ^ 24 mod 256) * 2 ^ 24 + (n div 2 ^ 16 mod 256) * 2 ^ 16
               + (n div 2 ^ 8 mod 256) * 2 ^ 8 + n mod 256)"
    unfolding octetsOf_def by (rule ipv4Value_octets) simp_all
  then show ?thesis by (simp only: octets_roundtrip [OF n])
qed

lemma ipv4Octets_int: "n < 2 ^ 32 \<Longrightarrow> ipv4Octets (int n) = octetsOf n"
  using ipv4Octets_value [of "int n"] by (simp add: octetsOf_def)

lemma nextIP_dotted:
  assumes "n < 2 ^ 32"
  shows "nextIP (dotted n) increment e =
           (let value1 = (if increment then int n + 1 else int n - 1)
            in if value1 < 0 \<or> value1 > 0xffffffff then None
               else Some (join ''.'' (map dec_str (ipv4Octets value1))))"
  by (simp add: nextIP_def isIP_dotted parts_dotted ipv4Value_octetsOf [OF assms] Let_def)

lemma nextIP_dotted_up:
  assumes "n < 2 ^ 32"
  shows "nextIP (dotted n) True e = (if n + 1 < 2 ^ 32 then Some (dotted (n + 1)) else None)"
proof (cases "n + 1 < 2 ^ 32")
  case True
  then have "ipv4Octets (int n + 1) = octetsOf (n + 1)"
    using ipv4Octets_int [of "n + 1"] by (simp add: add.commute)
  with True show ?thesis
    by (simp add: nextIP_dotted [OF assms] dotted_def [symmetric])
next
  case False
  then show ?thesis
    by (simp add: nextIP_dotted [OF assms])
qed

lemma nextIP_dotted_down:
  assumes "n < 2 ^ 32"
  shows "nextIP (dotted n) False e = (if 0 < n then Some (dotted (n - 1)) else None)"
proof (cases "0 < n")
  case True
  with assms have "ipv4Octets (int n - 1) = octetsOf (n - 1)"
    using ipv4Octets_int [of "n - 1"] by (simp add: of_nat_diff)
  with True assms show ?thesis
    by (simp add: nextIP_dotted [OF assms] dotted_def [symmetric])
next
  case False
  with nextIP_dotted [OF assms, of False e] show ?thesis by simp
qed

lemma isIPv4_is_dotted:
  assumes "isIPv4 s"
  shows "\<exists>n. n < 2 ^ 32 \<and> s = dotted n"
proof -
  from isIPv4_canonical [OF assms] obtain a b c d where
    le: "a \<le> 255" "b \<le> 255" "c \<le> 255" "d \<le> 255" and
    s: "s = join ''.'' (map dec_str [a, b, c, d])" by blast
  let ?n = "a * 2 ^ 24 + b * 2 ^ 16 + c * 2 ^ 8 + d"
  from le have lt: "a < 256" "b < 256" "c < 256" "d < 256" by simp_all
  from lt have "?n < 2 ^ 32" by simp
  moreover have "s = dotted ?n"
    by (simp only: dotted_def octetsOf_pack [OF lt] s)
  ultimately show ?thesis by blast
qed

lemma dotted_inj:
  assumes "n < 2 ^ 32" "m < 2 ^ 32" "dotted n = dotted m"
  shows "n = m"
proof -
  from assms(3) have "octetsOf n = octetsOf m"
    by (metis parts_dotted)
  then have "ipv4Value (octetsOf n) = ipv4Value (octetsOf m)" by simp
  with assms(1,2) show ?thesis by (simp add: ipv4Value_octetsOf)
qed

lemma dotted_max: "dotted 4294967295 = ''255.255.255.255''"
  by (simp add: dotted_def octetsOf_def dec_str.simps)

lemma dotted_zero: "dotted 0 = ''0.0.0.0''"
  by (simp add: dotted_def octetsOf_def dec_str.simps)

section \<open>Stepping an IPv4 address\<close>

text \<open>
  C2. For every valid IPv4 literal \<open>a\<close>: a step up followed by a step down gives \<open>a\<close>
  back, except that the step up is \<^verbatim>\<open>null\<close> exactly at \<open>255.255.255.255\<close>; a step down
  followed by a step up gives \<open>a\<close> back, except that the step down is \<^verbatim>\<open>null\<close> exactly
  at \<open>0.0.0.0\<close>. Nothing wraps around.
\<close>

theorem nextIP_ipv4_inverse:
  assumes "isIPv4 a"
  shows "(a = ''255.255.255.255'' \<longrightarrow> nextIP a True enableIPv6 = None)
       \<and> (a \<noteq> ''255.255.255.255'' \<longrightarrow>
            (\<exists>b. nextIP a True enableIPv6 = Some b \<and> nextIP b False enableIPv6 = Some a))
       \<and> (a = ''0.0.0.0'' \<longrightarrow> nextIP a False enableIPv6 = None)
       \<and> (a \<noteq> ''0.0.0.0'' \<longrightarrow>
            (\<exists>b. nextIP a False enableIPv6 = Some b \<and> nextIP b True enableIPv6 = Some a))"
proof -
  from isIPv4_is_dotted [OF assms] obtain n where n: "n < 2 ^ 32" and a: "a = dotted n"
    by blast
  have max_iff: "a = ''255.255.255.255'' \<longleftrightarrow> n = 4294967295"
    using dotted_inj [OF n, of 4294967295] by (auto simp: a dotted_max)
  have zero_iff: "a = ''0.0.0.0'' \<longleftrightarrow> n = 0"
    using dotted_inj [OF n, of 0] by (auto simp: a dotted_zero)
  have up_none: "n = 4294967295 \<Longrightarrow> nextIP a True enableIPv6 = None"
    using nextIP_dotted_up [OF n, of enableIPv6] by (simp add: a)
  have up_some: "n \<noteq> 4294967295 \<Longrightarrow>
      nextIP a True enableIPv6 = Some (dotted (n + 1))
      \<and> nextIP (dotted (n + 1)) False enableIPv6 = Some a"
  proof -
    assume "n \<noteq> 4294967295"
    with n have lt: "n + 1 < 2 ^ 32" by simp
    from nextIP_dotted_up [OF n, of enableIPv6] nextIP_dotted_down [OF lt, of enableIPv6] lt
    show ?thesis by (simp add: a)
  qed
  have down_none: "n = 0 \<Longrightarrow> nextIP a False enableIPv6 = None"
    using nextIP_dotted_down [OF n, of enableIPv6] by (simp add: a)
  have down_some: "n \<noteq> 0 \<Longrightarrow>
      nextIP a False enableIPv6 = Some (dotted (n - 1))
      \<and> nextIP (dotted (n - 1)) True enableIPv6 = Some a"
  proof -
    assume nz: "n \<noteq> 0"
    with n have lt: "n - 1 < 2 ^ 32" by simp
    from nextIP_dotted_down [OF n, of enableIPv6] nextIP_dotted_up [OF lt, of enableIPv6] nz n
    show ?thesis by (simp add: a)
  qed
  have 1: "a = ''255.255.255.255'' \<longrightarrow> nextIP a True enableIPv6 = None"
    using max_iff up_none by simp
  have 2: "a \<noteq> ''255.255.255.255'' \<longrightarrow>
            (\<exists>b. nextIP a True enableIPv6 = Some b \<and> nextIP b False enableIPv6 = Some a)"
    using max_iff up_some by simp
  have 3: "a = ''0.0.0.0'' \<longrightarrow> nextIP a False enableIPv6 = None"
    using zero_iff down_none by simp
  have 4: "a \<noteq> ''0.0.0.0'' \<longrightarrow>
            (\<exists>b. nextIP a False enableIPv6 = Some b \<and> nextIP b True enableIPv6 = Some a)"
    using zero_iff down_some by simp
  from 1 2 3 4 show ?thesis by (intro conjI)
qed


text \<open>C2 at \<open>10.0.0.5\<close> and at the two ends of the address space.\<close>

lemma isIPv4_examples: "isIPv4 ''10.0.0.5''" "isIPv4 ''255.255.255.255''" "isIPv4 ''0.0.0.0''"
  by code_simp+

theorem nextIP_ipv4_inverse_witness:
  "isIPv4 ''10.0.0.5''
   \<and> (\<exists>b. nextIP ''10.0.0.5'' True True = Some b \<and> nextIP b False True = Some ''10.0.0.5'')
   \<and> (\<exists>b. nextIP ''10.0.0.5'' False True = Some b \<and> nextIP b True True = Some ''10.0.0.5'')
   \<and> isIPv4 ''255.255.255.255'' \<and> nextIP ''255.255.255.255'' True True = None
   \<and> isIPv4 ''0.0.0.0'' \<and> nextIP ''0.0.0.0'' False True = None"
  using nextIP_ipv4_inverse [OF isIPv4_examples(1), of True]
    nextIP_ipv4_inverse [OF isIPv4_examples(2), of True]
    nextIP_ipv4_inverse [OF isIPv4_examples(3), of True]
    isIPv4_examples
  by simp

section \<open>IPv6 literals\<close>

lemma zeroRun_zerosIn: "zeroRun xs s l \<longleftrightarrow> zerosIn xs (length xs) s l"
proof
  assume z: "zeroRun xs s l"
  then have le: "s + l \<le> length xs" by (simp add: zeroRun_def)
  have "xs ! k = ''0''" if "s \<le> k" "k < s + l" for k
  proof -
    from that le have j: "k - s < length (take l (drop s xs))" by simp
    from z have "list_all (\<lambda>g. g = ''0'') (take l (drop s xs))" by (simp add: zeroRun_def)
    with j have "take l (drop s xs) ! (k - s) = ''0''" by (simp add: list_all_length)
    with that le show ?thesis by simp
  qed
  with le show "zerosIn xs (length xs) s l" by (simp add: zerosIn_def)
next
  assume z: "zerosIn xs (length xs) s l"
  then have le: "s + l \<le> length xs" by (simp add: zerosIn_def)
  have "take l (drop s xs) ! j = ''0''" if "j < length (take l (drop s xs))" for j
  proof -
    from that le have "j < l" by simp
    with z le have "xs ! (s + j) = ''0''" by (simp add: zerosIn_def)
    with \<open>j < l\<close> le show ?thesis by simp
  qed
  with le show "zeroRun xs s l" by (simp add: zeroRun_def list_all_length)
qed

text \<open>A run that is not wholly before the trailing zeros lies within them.\<close>

lemma run_in_trailing:
  assumes t: "trailing xs cs cl" and z: "zerosIn xs (length xs) s l" and l: "0 < l"
    and over: "\<not> s + l \<le> length xs - cl"
  shows "length xs - cl \<le> s"
proof (rule ccontr)
  assume "\<not> length xs - cl \<le> s"
  then have lt: "s < length xs - cl" by simp
  then have c: "cl < length xs" by simp
  with t have nz: "xs ! (length xs - cl - 1) \<noteq> ''0''" by (simp add: trailing_def)
  from lt over have "s \<le> length xs - cl - 1" "length xs - cl - 1 < s + l" by simp_all
  with z have "xs ! (length xs - cl - 1) = ''0''" by (simp add: zerosIn_def)
  with nz show False by simp
qed

lemma close_run:
  assumes t: "trailing xs cs cl" and b: "firstLongest xs (length xs - cl) bs bl"
  shows "firstLongest xs (length xs) (if cl > bl then cs else bs) (if cl > bl then cl else bl)"
proof (cases "cl > bl")
  case True
  then have pos: "0 < cl" by simp
  with t have cs: "cs = int (length xs - cl)" and le: "cl \<le> length xs"
    and zs: "\<forall>k. length xs - cl \<le> k \<and> k < length xs \<longrightarrow> xs ! k = ''0''"
    by (simp_all add: trailing_def)
  have ncs: "nat cs = length xs - cl" and cs0: "0 \<le> cs"
    by (simp_all only: cs nat_int of_nat_0_le_iff)
  have 1: "0 \<le> cs \<and> zerosIn xs (length xs) (nat cs) cl"
    using le zs by (simp add: zerosIn_def ncs cs0)
  have 2: "l \<le> cl" if z: "zerosIn xs (length xs) s l" for s l
  proof (cases "s + l \<le> length xs - cl")
    case True
    with z have "zerosIn xs (length xs - cl) s l" by (simp add: zerosIn_def)
    with b have "l \<le> bl" by (simp add: firstLongest_def)
    with \<open>cl > bl\<close> show ?thesis by simp
  next
    case False
    show ?thesis
    proof (cases "0 < l")
      case True
      from z have "s + l \<le> length xs" by (simp add: zerosIn_def)
      with run_in_trailing [OF t z True False] le show ?thesis by linarith
    next
      case False
      then show ?thesis by simp
    qed
  qed
  have 3: "nat cs \<le> s" if z: "zerosIn xs (length xs) s cl" for s
  proof (cases "s + cl \<le> length xs - cl")
    case True
    with z have "zerosIn xs (length xs - cl) s cl" by (simp add: zerosIn_def)
    with b have "cl \<le> bl" by (simp add: firstLongest_def)
    with \<open>cl > bl\<close> show ?thesis by simp
  next
    case False
    from run_in_trailing [OF t z pos False] ncs show ?thesis by simp
  qed
  from True 1 2 3 show ?thesis by (simp add: firstLongest_def)
next
  case False
  from t have le: "cl \<le> length xs" by (simp add: trailing_def)
  have 1: "0 < bl \<longrightarrow> 0 \<le> bs \<and> zerosIn xs (length xs) (nat bs) bl"
    using b by (auto simp: firstLongest_def zerosIn_def)
  have 2: "l \<le> bl" if z: "zerosIn xs (length xs) s l" for s l
  proof (cases "s + l \<le> length xs - cl")
    case True
    with z have "zerosIn xs (length xs - cl) s l" by (simp add: zerosIn_def)
    with b show ?thesis by (simp add: firstLongest_def)
  next
    case over: False
    show ?thesis
    proof (cases "0 < l")
      case True
      from z have "s + l \<le> length xs" by (simp add: zerosIn_def)
      with run_in_trailing [OF t z True over] le have "l \<le> cl" by linarith
      with False show ?thesis by simp
    next
      case False
      then show ?thesis by simp
    qed
  qed
  have 3: "nat bs \<le> s" if z: "zerosIn xs (length xs) s bl" and pos: "0 < bl" for s
  proof (cases "s + bl \<le> length xs - cl")
    case True
    with z have "zerosIn xs (length xs - cl) s bl" by (simp add: zerosIn_def)
    with b pos show ?thesis by (simp add: firstLongest_def)
  next
    case over: False
    from b pos have "nat bs + bl \<le> length xs - cl" by (simp add: firstLongest_def zerosIn_def)
    with run_in_trailing [OF t z pos over] show ?thesis by simp
  qed
  from False 1 2 3 show ?thesis by (simp add: firstLongest_def)
qed

lemma zerosIn_append: "n \<le> length xs \<Longrightarrow> zerosIn (xs @ ys) n s l \<longleftrightarrow> zerosIn xs n s l"
  unfolding zerosIn_def
proof (rule conj_cong [OF refl])
  assume n: "n \<le> length xs" and le: "s + l \<le> n"
  have "(xs @ ys) ! k = xs ! k" if "k < s + l" for k
    using that n le by (simp add: nth_append)
  then show "(\<forall>k. s \<le> k \<and> k < s + l \<longrightarrow> (xs @ ys) ! k = ''0'')
             \<longleftrightarrow> (\<forall>k. s \<le> k \<and> k < s + l \<longrightarrow> xs ! k = ''0'')"
    by simp
qed

lemma firstLongest_append:
  "n \<le> length xs \<Longrightarrow> firstLongest (xs @ ys) n bs bl \<longleftrightarrow> firstLongest xs n bs bl"
  by (simp add: firstLongest_def zerosIn_append)

lemma trailing_minus_one: "trailing xs cs cl \<Longrightarrow> cs = - 1 \<longleftrightarrow> cl = 0"
  by (auto simp: trailing_def)

lemma step_zero:
  assumes t: "trailing xs cs cl"
  shows "trailing (xs @ [''0'']) (if cs = - 1 then int (length xs) else cs) (cl + 1)"
proof -
  let ?ys = "xs @ [''0'']"
  from t have le: "cl \<le> length xs" by (simp add: trailing_def)
  have 2: "?ys ! k = ''0''" if "length ?ys - (cl + 1) \<le> k" "k < length ?ys" for k
  proof (cases "k < length xs")
    case True
    with that t show ?thesis by (simp add: trailing_def nth_append)
  next
    case False
    with that show ?thesis by (simp add: nth_append)
  qed
  have 3: "?ys ! (length ?ys - (cl + 1) - 1) \<noteq> ''0''" if "cl + 1 < length ?ys"
  proof -
    from that have c: "cl < length xs" by simp
    with t have "xs ! (length xs - cl - 1) \<noteq> ''0''" by (simp add: trailing_def)
    with c show ?thesis by (simp add: nth_append)
  qed
  have 5: "(if cs = - 1 then int (length xs) else cs) = int (length ?ys - (cl + 1))"
  proof (cases "cs = - 1")
    case True
    with trailing_minus_one [OF t] show ?thesis by simp
  next
    case False
    with trailing_minus_one [OF t] have "0 < cl" by simp
    with t False show ?thesis by (simp add: trailing_def)
  qed
  from le 2 3 5 show ?thesis unfolding trailing_def by simp
qed

lemma step_nonzero_trailing: "p \<noteq> ''0'' \<Longrightarrow> trailing (xs @ [p]) (- 1) 0"
  by (auto simp: trailing_def)

lemma step_nonzero_best:
  assumes p: "p \<noteq> ''0''" and b: "firstLongest xs (length xs) bs bl"
  shows "firstLongest (xs @ [p]) (length xs + 1) bs bl"
proof -
  have down: "zerosIn xs (length xs) s l" if z: "zerosIn (xs @ [p]) (length xs + 1) s l" and l: "0 < l"
    for s l
  proof -
    have "s + l \<le> length xs"
    proof (rule ccontr)
      assume "\<not> s + l \<le> length xs"
      with z have "s + l = length xs + 1" by (simp add: zerosIn_def)
      with l have k: "s \<le> length xs \<and> length xs < s + l" by simp
      from z have "\<forall>k. s \<le> k \<and> k < s + l \<longrightarrow> (xs @ [p]) ! k = ''0''"
        by (simp add: zerosIn_def)
      with k have "(xs @ [p]) ! length xs = ''0''" by blast
      with p show False by simp
    qed
    then have "zerosIn (xs @ [p]) (length xs) s l" using z by (simp add: zerosIn_def)
    then show ?thesis by (simp add: zerosIn_append)
  qed
  have up: "zerosIn (xs @ [p]) (length xs + 1) s l" if "zerosIn xs (length xs) s l" for s l
  proof -
    from that have "zerosIn (xs @ [p]) (length xs) s l" by (simp add: zerosIn_append)
    then show ?thesis by (simp add: zerosIn_def)
  qed
  have 1: "0 < bl \<longrightarrow> 0 \<le> bs \<and> zerosIn (xs @ [p]) (length xs + 1) (nat bs) bl"
    using b up by (simp add: firstLongest_def)
  have 2: "l \<le> bl" if z: "zerosIn (xs @ [p]) (length xs + 1) s l" for s l
  proof (cases "0 < l")
    case True
    from down [OF z True] b show ?thesis by (simp add: firstLongest_def)
  next
    case False
    then show ?thesis by simp
  qed
  have 3: "nat bs \<le> s" if z: "zerosIn (xs @ [p]) (length xs + 1) s bl" and pos: "0 < bl" for s
    using down [OF z pos] b pos by (simp add: firstLongest_def)
  from 1 2 3 show ?thesis by (simp add: firstLongest_def)
qed

lemma longestRun_invariant:
  "trailing pre cs cl \<Longrightarrow> firstLongest pre (length pre - cl) bs bl \<Longrightarrow>
   longestRun rest (length pre) (bs, bl, cs, cl) = (bs', bl', cs', cl') \<Longrightarrow>
   trailing (pre @ rest) cs' cl'
   \<and> firstLongest (pre @ rest) (length (pre @ rest) - cl') bs' bl'"
proof (induction rest arbitrary: pre bs bl cs cl)
  case Nil
  then show ?case by simp
next
  case (Cons p ps)
  show ?case
  proof (cases "p = ''0''")
    case True
    let ?cs = "if cs = - 1 then int (length pre) else cs"
    from Cons.prems(1) have le: "cl \<le> length pre" by (simp add: trailing_def)
    from step_zero [OF Cons.prems(1)] True
    have t: "trailing (pre @ [p]) ?cs (cl + 1)" by simp
    from Cons.prems(2) le
    have b: "firstLongest (pre @ [p]) (length (pre @ [p]) - (cl + 1)) bs bl"
      by (simp add: firstLongest_append)
    from Cons.prems(3) True trailing_minus_one [OF Cons.prems(1)]
    have r: "longestRun ps (length (pre @ [p])) (bs, bl, ?cs, cl + 1) = (bs', bl', cs', cl')"
      by (auto split: if_splits)
    from Cons.IH [OF t b r] show ?thesis by simp
  next
    case False
    let ?bs = "if cl > bl then cs else bs"
    let ?bl = "if cl > bl then cl else bl"
    from step_nonzero_trailing [OF False] have t: "trailing (pre @ [p]) (- 1) 0" .
    from step_nonzero_best [OF False close_run [OF Cons.prems(1,2)]]
    have b: "firstLongest (pre @ [p]) (length (pre @ [p]) - 0) ?bs ?bl" by simp
    from Cons.prems(3) False
    have r: "longestRun ps (length (pre @ [p])) (?bs, ?bl, - 1, 0) = (bs', bl', cs', cl')"
      by (auto split: if_splits)
    from Cons.IH [OF t b r] show ?thesis by simp
  qed
qed

lemma bestRun_firstLongest:
  assumes "bestRun xs = (bs, bl)"
  shows "firstLongest xs (length xs) bs bl"
proof -
  obtain bs0 bl0 cs0 cl0 where r: "longestRun xs 0 (- 1, 0, - 1, 0) = (bs0, bl0, cs0, cl0)"
    by (cases "longestRun xs 0 (- 1, 0, - 1, 0)") auto
  have t0: "trailing [] (- 1) 0" by (simp add: trailing_def)
  have b0: "firstLongest [] (length ([]::string list) - 0) (- 1) 0"
    by (simp add: firstLongest_def zerosIn_def)
  from longestRun_invariant [OF t0 b0, of xs bs0 bl0 cs0 cl0] r
  have inv: "trailing xs cs0 cl0" "firstLongest xs (length xs - cl0) bs0 bl0" by simp_all
  from assms r have "bs = (if cl0 > bl0 then cs0 else bs0)" "bl = (if cl0 > bl0 then cl0 else bl0)"
    by (auto simp: bestRun_def split: if_splits)
  with close_run [OF inv] show ?thesis by simp
qed

theorem bestRun_first_longest_run:
  assumes "bestRun xs = (bs, bl)"
  shows "(0 < bl \<longrightarrow> 0 \<le> bs \<and> zeroRun xs (nat bs) bl)
       \<and> (zeroRun xs s l \<longrightarrow> l \<le> bl)
       \<and> (0 < bl \<and> zeroRun xs s bl \<longrightarrow> nat bs \<le> s)"
  using bestRun_firstLongest [OF assms]
  by (simp add: firstLongest_def zeroRun_zerosIn)

lemma compressed_eq:
  "compressed parts (bs, bl) =
     (if 2 \<le> bl
      then join '':'' (take (nat bs) parts) @ ''::'' @ join '':'' (drop (nat bs + bl) parts)
      else join '':'' parts)"
  by (simp add: compressed_def Let_def)

lemma db8_expand:
  "expandIPv6 ''2001:db8::1'' = Some ''2001:0db8:0000:0000:0000:0000:0000:0001''"
  by code_simp

lemma db8_value:
  "bigIntOfGroups 0 (split_str '':'' ''2001:0db8:0000:0000:0000:0000:0000:0001'')
     = Some 0x20010db8000000000000000000000001"
  by (simp add: parseInt_def isSpace_def digitVal_def)

lemma db8_literal: "bigIntToIPv6 0x20010db8000000000000000000000001 = ''2001:db8::1''"
  by code_simp

text \<open>
  C7. \<^verbatim>\<open>expandIPv6("2001:db8::1")\<close> is the eight zero-padded groups
  \<open>2001:0db8:0000:0000:0000:0000:0000:0001\<close>; their value, read as \<^verbatim>\<open>nextIP\<close> reads
  them, prints back as \<open>2001:db8::1\<close>. For every value, the run \<^verbatim>\<open>bigIntToIPv6\<close>
  picks is a run of zero groups, no run of zero groups is longer, and no run of the same
  length starts earlier; the literal replaces that run by \<open>::\<close> when it has two groups
  or more, and is the plain colon-separated groups otherwise.
\<close>

theorem ipv6_expand_and_compress:
  "expandIPv6 ''2001:db8::1'' = Some ''2001:0db8:0000:0000:0000:0000:0000:0001''
   \<and> bigIntOfGroups 0 (split_str '':'' ''2001:0db8:0000:0000:0000:0000:0000:0001'')
        = Some 0x20010db8000000000000000000000001
   \<and> bigIntToIPv6 0x20010db8000000000000000000000001 = ''2001:db8::1''
   \<and> (bestRun (cleanPartsOf n) = (bs, bl) \<longrightarrow>
         (0 < bl \<longrightarrow> 0 \<le> bs \<and> zeroRun (cleanPartsOf n) (nat bs) bl)
         \<and> (zeroRun (cleanPartsOf n) s l \<longrightarrow> l \<le> bl)
         \<and> (0 < bl \<and> zeroRun (cleanPartsOf n) s bl \<longrightarrow> nat bs \<le> s)
         \<and> bigIntToIPv6 n =
              (if 2 \<le> bl
               then join '':'' (take (nat bs) (cleanPartsOf n)) @ ''::''
                    @ join '':'' (drop (nat bs + bl) (cleanPartsOf n))
               else join '':'' (cleanPartsOf n)))"
proof -
  have general: "bestRun (cleanPartsOf n) = (bs, bl) \<longrightarrow>
         (0 < bl \<longrightarrow> 0 \<le> bs \<and> zeroRun (cleanPartsOf n) (nat bs) bl)
         \<and> (zeroRun (cleanPartsOf n) s l \<longrightarrow> l \<le> bl)
         \<and> (0 < bl \<and> zeroRun (cleanPartsOf n) s bl \<longrightarrow> nat bs \<le> s)
         \<and> bigIntToIPv6 n =
              (if 2 \<le> bl
               then join '':'' (take (nat bs) (cleanPartsOf n)) @ ''::''
                    @ join '':'' (drop (nat bs + bl) (cleanPartsOf n))
               else join '':'' (cleanPartsOf n))"
  proof
    assume r: "bestRun (cleanPartsOf n) = (bs, bl)"
    have "bigIntToIPv6 n = compressed (cleanPartsOf n) (bs, bl)"
      by (simp add: bigIntToIPv6_def Let_def r)
    with bestRun_first_longest_run [OF r, of s l] show
      "(0 < bl \<longrightarrow> 0 \<le> bs \<and> zeroRun (cleanPartsOf n) (nat bs) bl)
         \<and> (zeroRun (cleanPartsOf n) s l \<longrightarrow> l \<le> bl)
         \<and> (0 < bl \<and> zeroRun (cleanPartsOf n) s bl \<longrightarrow> nat bs \<le> s)
         \<and> bigIntToIPv6 n =
              (if 2 \<le> bl
               then join '':'' (take (nat bs) (cleanPartsOf n)) @ ''::''
                    @ join '':'' (drop (nat bs + bl) (cleanPartsOf n))
               else join '':'' (cleanPartsOf n))"
      by (simp only: compressed_eq) simp
  qed
  from db8_expand db8_value db8_literal general show ?thesis by (intro conjI)
qed

text \<open>C7 on \<open>1:0:0:2:0:0:3:4\<close>, where two runs of two groups tie.\<close>

lemma tie_parts:
  "cleanPartsOf 0x00010000000000020000000000030004
     = [''1'', ''0'', ''0'', ''2'', ''0'', ''0'', ''3'', ''4'']"
  by code_simp

lemma tie_run: "bestRun [''1'', ''0'', ''0'', ''2'', ''0'', ''0'', ''3'', ''4''] = (1, 2)"
  by code_simp

lemma tie_second: "zeroRun [''1'', ''0'', ''0'', ''2'', ''0'', ''0'', ''3'', ''4''] 4 2"
  by code_simp

theorem ipv6_expand_and_compress_witness:
  "bestRun (cleanPartsOf 0x00010000000000020000000000030004) = (1, 2)
   \<and> zeroRun (cleanPartsOf 0x00010000000000020000000000030004) 1 2
   \<and> zeroRun (cleanPartsOf 0x00010000000000020000000000030004) 4 2
   \<and> bigIntToIPv6 0x00010000000000020000000000030004 = ''1::2:0:0:3:4''"
  using ipv6_expand_and_compress [of "0x00010000000000020000000000030004" 1 2 4 2]
  by (simp add: tie_parts tie_run tie_second)

section \<open>The single-address walk\<close>

lemma length_walk: "length (walk pulls i lowIP highIP) = min pulls (MAX_SAFE_INTEGER - i)"
  by (induction pulls arbitrary: i lowIP highIP) (auto simp: Let_def)

lemma walk_low_exhausted:
  assumes "nextIP lowIP False True = None"
  shows "j < length (walk pulls i lowIP highIP) \<Longrightarrow> even (i + j) \<Longrightarrow>
         walk pulls i lowIP highIP ! j
           = \<lparr>Host.ip = Some lowIP, Host.origin = lowIP, type = IP\<rparr>"
proof (induction pulls arbitrary: i j highIP)
  case 0
  then show ?case by simp
next
  case (Suc pulls)
  from Suc.prems(1) have lt: "i < MAX_SAFE_INTEGER" by (auto split: if_splits)
  show ?case
  proof (cases j)
    case 0
    with Suc.prems lt assms show ?thesis by (simp add: js_or_def Let_def)
  next
    case (Suc k)
    with Suc.prems lt have k: "k < length (walk pulls (i + 1) lowIP (if i mod 2 = 0 then highIP else js_or (nextIP highIP True True) highIP))"
      by (auto simp: Let_def assms js_or_def split: if_splits)
    from Suc Suc.prems have ev: "even ((i + 1) + k)" by simp
    from Suc.IH [OF k ev] Suc lt assms show ?thesis
      by (auto simp: Let_def js_or_def)
  qed
qed

lemma walk_high_exhausted:
  assumes "nextIP highIP True True = None"
  shows "j < length (walk pulls i lowIP highIP) \<Longrightarrow> odd (i + j) \<Longrightarrow>
         walk pulls i lowIP highIP ! j
           = \<lparr>Host.ip = Some highIP, Host.origin = highIP, type = IP\<rparr>"
proof (induction pulls arbitrary: i j lowIP)
  case 0
  then show ?case by simp
next
  case (Suc pulls)
  from Suc.prems(1) have lt: "i < MAX_SAFE_INTEGER" by (auto split: if_splits)
  show ?case
  proof (cases j)
    case 0
    with Suc.prems lt assms show ?thesis by (simp add: js_or_def Let_def even_iff_mod_2_eq_zero)
  next
    case (Suc k)
    with Suc.prems lt have k: "k < length (walk pulls (i + 1) (if i mod 2 = 0 then js_or (nextIP lowIP False True) lowIP else lowIP) highIP)"
      by (auto simp: Let_def assms js_or_def split: if_splits)
    from Suc Suc.prems have ev: "odd ((i + 1) + k)" by simp
    from Suc.IH [OF k ev] Suc lt assms show ?thesis
      by (auto simp: Let_def js_or_def even_iff_mod_2_eq_zero)
  qed
qed

lemma mapped_facts: "isIP ''::ffff:1.2.3.4'' = 6" "cidrMatch ''::ffff:1.2.3.4'' = None"
  by code_simp+

lemma mapped_expand:
  "expandIPv6 ''::ffff:1.2.3.4'' = Some ''0000:0000:0000:0000:0000:0000:ffff:1.2.3.4''"
  by code_simp

lemma mapped_value:
  "bigIntOfGroups 0 (split_str '':'' ''0000:0000:0000:0000:0000:0000:ffff:1.2.3.4'')
     = Some 4294901761"
  by (simp add: parseInt_def isSpace_def digitVal_def)

lemma mapped_literals:
  "bigIntToIPv6 4294901760 = ''::ffff:0''" "bigIntToIPv6 4294901762 = ''::ffff:2''"
  by code_simp+

lemma mapped_down: "nextIP ''::ffff:1.2.3.4'' False True = Some ''::ffff:0''"
  by (simp add: nextIP_def mapped_facts mapped_expand mapped_value mapped_literals
           del: split_str.simps)

lemma mapped_up: "nextIP ''::ffff:1.2.3.4'' True True = Some ''::ffff:2''"
  by (simp add: nextIP_def mapped_facts mapped_expand mapped_value mapped_literals
           del: split_str.simps)

lemma MAX_gt: "0 < MAX_SAFE_INTEGER" "1 < MAX_SAFE_INTEGER" "Suc 0 < MAX_SAFE_INTEGER"
  by (simp_all add: MAX_SAFE_INTEGER_def)

lemma walk_two:
  "walk 2 0 lowIP highIP =
     (let low1 = js_or (nextIP lowIP False True) lowIP;
          high1 = js_or (nextIP highIP True True) highIP
      in [\<lparr>Host.ip = Some low1, Host.origin = low1, type = IP\<rparr>,
          \<lparr>Host.ip = Some high1, Host.origin = high1, type = IP\<rparr>])"
proof -
  have "walk 2 0 lowIP highIP = walk (Suc (Suc 0)) 0 lowIP highIP"
    by (simp only: numeral_2_eq_2)
  then show ?thesis by (simp add: MAX_gt Let_def)
qed

lemma zero_facts: "cidrMatch ''0.0.0.0'' = None" "isIP ''0.0.0.0'' = 4"
  "nextIP ''0.0.0.0'' False True = None" "nextIP ''255.255.255.255'' True True = None"
  by code_simp+

text \<open>
  C10, as the loop has it. From any state of the loop in which the step of the low
  watermark is \<^verbatim>\<open>null\<close>, every later target of the low side (the even indices) is that
  same watermark again, and likewise for the high side on the odd indices; none of these
  targets is withheld, since the loop hands out one target per index until the consumer
  stops or the index reaches \<^verbatim>\<open>Number.MAX_SAFE_INTEGER\<close>.
\<close>

theorem walk_exhausted_side:
  "(nextIP lowIP False True = None \<and> j < length (walk pulls i lowIP highIP) \<and> even (i + j)
      \<longrightarrow> walk pulls i lowIP highIP ! j
           = \<lparr>Host.ip = Some lowIP, Host.origin = lowIP, type = IP\<rparr>)
   \<and> (nextIP highIP True True = None \<and> j < length (walk pulls i lowIP highIP) \<and> odd (i + j)
      \<longrightarrow> walk pulls i lowIP highIP ! j
           = \<lparr>Host.ip = Some highIP, Host.origin = highIP, type = IP\<rparr>)
   \<and> length (walk pulls i lowIP highIP) = min pulls (MAX_SAFE_INTEGER - i)"
  using walk_low_exhausted [of lowIP j pulls i highIP]
    walk_high_exhausted [of highIP j pulls i lowIP] length_walk [of pulls i lowIP highIP]
  by blast

theorem walk_exhausted_side_witness:
  "walk 4 0 ''0.0.0.0'' ''255.255.255.255'' ! 2
     = \<lparr>Host.ip = Some ''0.0.0.0'', Host.origin = ''0.0.0.0'', type = IP\<rparr>
   \<and> walk 4 0 ''0.0.0.0'' ''255.255.255.255'' ! 1
     = \<lparr>Host.ip = Some ''255.255.255.255'', Host.origin = ''255.255.255.255'', type = IP\<rparr>
   \<and> length (walk 4 0 ''0.0.0.0'' ''255.255.255.255'') = 4"
  using walk_exhausted_side [of "''0.0.0.0''" 2 4 0 "''255.255.255.255''"]
    walk_exhausted_side [of "''0.0.0.0''" 1 4 0 "''255.255.255.255''"]
  by (simp add: zero_facts length_walk MAX_SAFE_INTEGER_def)

text \<open>
  C10 as stated fails: the watermark is not handed out infinitely often. A consumer that
  asks the walk from \<open>0.0.0.0\<close> for \<open>2^53 + 1\<close> targets gets \<open>2^53\<close>, the seed and one
  target for each of the \<open>2^53 - 1\<close> iterations of the loop.
\<close>

theorem walk_is_finite:
  "length (iterateAddr noLookup ''0.0.0.0'' (2 ^ 53 + 1)) = 2 ^ 53"
  by (simp add: iterateAddr_def zero_facts length_walk MAX_SAFE_INTEGER_def)

section \<open>The line source\<close>

lemma map_upt_Suc_shift: "map f [0..<Suc n] = f 0 # map (\<lambda>k. f (Suc k)) [0..<n]"
  by (simp add: map_upt_Suc del: upt_Suc)

lemma join_octets_dotted:
  assumes "a \<le> 255" "b \<le> 255" "c \<le> 255" "d \<le> 255"
  shows "join ''.'' (map dec_str [a, b, c, d]) = dotted (a * 2 ^ 24 + b * 2 ^ 16 + c * 2 ^ 8 + d)"
proof -
  from assms have lt: "a < 256" "b < 256" "c < 256" "d < 256" by simp_all
  show ?thesis by (simp only: dotted_def octetsOf_pack [OF lt])
qed

lemma cidrLoop_step:
  assumes "a \<le> 255" "b \<le> 255" "c \<le> 255" "d \<le> 255"
  shows "cidrLoop (Suc n) [a, b, c, d] line =
           member line (a * 2 ^ 24 + b * 2 ^ 16 + c * 2 ^ 8 + d)
           # (if d < 255 then cidrLoop n [a, b, c, d + 1] line
              else if c < 255 then cidrLoop n [a, b, c + 1, 0] line
              else if b < 255 then cidrLoop n [a, b + 1, 0, 0] line
              else [])"
proof -
  have ip: "isIP (join ''.'' (map dec_str [a, b, c, d])) \<noteq> 0"
    using isIPv4_join [OF assms] by (simp add: isIP_def)
  have upd: "[a, b, c, d][3 := x] = [a, b, c, x]" "[a, b, c, d][2 := x] = [a, b, x, d]"
    "[a, b, c, d][1 := x] = [a, x, c, d]" for x a b c d :: nat
    by (simp_all add: numeral_3_eq_3 numeral_2_eq_2)
  have nth: "at [a, b, c, d] 3 = d" "at [a, b, c, d] 2 = c" "at [a, b, c, d] 1 = b"
    for a b c d :: nat
    by (simp_all add: at_def numeral_3_eq_3 numeral_2_eq_2)
  show ?thesis
    unfolding cidrLoop.simps Let_def
    using ip assms
    by (simp only: upd nth join_octets_dotted [OF assms] member_def [symmetric]) (auto simp: upd nth)
qed

declare cidrLoop.simps(2) [simp del]

lemma cidrLoop_dotted:
  assumes "a \<le> 255"
  shows "b \<le> 255 \<Longrightarrow> c \<le> 255 \<Longrightarrow> d \<le> 255 \<Longrightarrow>
         cidrLoop n [a, b, c, d] line =
           map (\<lambda>k. member line (a * 2 ^ 24 + (b * 2 ^ 16 + c * 2 ^ 8 + d) + k))
               [0..<min n (2 ^ 24 - (b * 2 ^ 16 + c * 2 ^ 8 + d))]"
proof (induction n arbitrary: b c d)
  case 0
  then show ?case by simp
next
  case (Suc n)
  let ?r = "b * 2 ^ 16 + c * 2 ^ 8 + d"
  let ?f = "\<lambda>k. member line (a * 2 ^ 24 + ?r + k)"
  have r: "?r < 2 ^ 24" using Suc.prems by simp
  note step = cidrLoop_step [OF assms Suc.prems, of n line]
  consider (d) "d < 255" | (c) "\<not> d < 255" "c < 255" | (b) "\<not> d < 255" "\<not> c < 255" "b < 255"
    | (stop) "\<not> d < 255" "\<not> c < 255" "\<not> b < 255" by blast
  then show ?case
  proof cases
    case d
    then have le: "d + 1 \<le> 255" by simp
    let ?m = "min n (2 ^ 24 - (b * 2 ^ 16 + c * 2 ^ 8 + (d + 1)))"
    have m: "min (Suc n) (2 ^ 24 - ?r) = Suc ?m"
      using r by simp
    have s1: "cidrLoop (Suc n) [a, b, c, d] line = ?f 0 # cidrLoop n [a, b, c, d + 1] line"
      using step d by (simp add: add.assoc)
    have s2: "cidrLoop n [a, b, c, d + 1] line = map (\<lambda>k. ?f (Suc k)) [0..<?m]"
      using Suc.IH [OF Suc.prems(1,2) le] by (simp add: algebra_simps)
    have s3: "map ?f [0..<min (Suc n) (2 ^ 24 - ?r)] = ?f 0 # map (\<lambda>k. ?f (Suc k)) [0..<?m]"
      by (simp only: m map_upt_Suc_shift)
    show ?thesis by (simp only: s1 s2 s3)
  next
    case c
    with Suc.prems have d255: "d = 255" by simp
    from c have le: "c + 1 \<le> 255" by simp
    let ?m = "min n (2 ^ 24 - (b * 2 ^ 16 + (c + 1) * 2 ^ 8 + 0))"
    have m: "min (Suc n) (2 ^ 24 - ?r) = Suc ?m"
      using r d255 by simp
    have s1: "cidrLoop (Suc n) [a, b, c, d] line = ?f 0 # cidrLoop n [a, b, c + 1, 0] line"
      using step c by (simp add: add.assoc)
    have s2: "cidrLoop n [a, b, c + 1, 0] line = map (\<lambda>k. ?f (Suc k)) [0..<?m]"
      using Suc.IH [OF Suc.prems(1) le, of 0] d255 by (simp add: algebra_simps)
    have s3: "map ?f [0..<min (Suc n) (2 ^ 24 - ?r)] = ?f 0 # map (\<lambda>k. ?f (Suc k)) [0..<?m]"
      by (simp only: m map_upt_Suc_shift)
    show ?thesis by (simp only: s1 s2 s3)
  next
    case b
    with Suc.prems have d255: "d = 255" and c255: "c = 255" by simp_all
    from b have le: "b + 1 \<le> 255" by simp
    let ?m = "min n (2 ^ 24 - ((b + 1) * 2 ^ 16 + 0 * 2 ^ 8 + 0))"
    have m: "min (Suc n) (2 ^ 24 - ?r) = Suc ?m"
      using r d255 c255 by simp
    have s1: "cidrLoop (Suc n) [a, b, c, d] line = ?f 0 # cidrLoop n [a, b + 1, 0, 0] line"
      using step b by (simp add: add.assoc)
    have s2: "cidrLoop n [a, b + 1, 0, 0] line = map (\<lambda>k. ?f (Suc k)) [0..<?m]"
      using Suc.IH [OF le, of 0 0] d255 c255 by (simp add: algebra_simps)
    have s3: "map ?f [0..<min (Suc n) (2 ^ 24 - ?r)] = ?f 0 # map (\<lambda>k. ?f (Suc k)) [0..<?m]"
      by (simp only: m map_upt_Suc_shift)
    show ?thesis by (simp only: s1 s2 s3)
  next
    case stop
    with Suc.prems have e: "d = 255" "c = 255" "b = 255" by simp_all
    have m: "min (Suc n) (2 ^ 24 - ?r) = Suc 0" using e by simp
    have s1: "cidrLoop (Suc n) [a, b, c, d] line = [?f 0]"
      using step stop by (simp add: add.assoc)
    have s3: "map ?f [0..<min (Suc n) (2 ^ 24 - ?r)] = [?f 0]"
      by (simp only: m map_upt_Suc_shift) simp
    show ?thesis by (simp only: s1 s3)
  qed
qed

subsection \<open>A line with a slash is no address\<close>

lemma slash_no_class:
  "\<not> isDigit CHR ''/''" "\<not> isHexDigit CHR ''/''" "\<not> zoneChar CHR ''/''"
  by (simp_all add: isDigit_def isHexDigit_def zoneChar_def isAlpha_def)

lemma list_all_mem: "list_all P xs \<Longrightarrow> x \<in> set xs \<Longrightarrow> P x"
  by (simp add: list_all_iff)

lemma slash_not_isIPv4:
  assumes "CHR ''/'' \<in> set s"
  shows "\<not> isIPv4 s"
proof
  assume v4: "isIPv4 s"
  from split_str_chars [OF assms, of "''.''"] obtain p where
    p: "p \<in> set (split_str ''.'' s)" and sl: "CHR ''/'' \<in> set p" by auto
  from v4 p have "v4Seg p" by (simp add: isIPv4_def Let_def list_all_iff)
  then have "list_all isDigit p" by (simp add: v4Seg_def)
  from list_all_mem [OF this sl] slash_no_class show False by simp
qed

lemma slash_not_v6Seg:
  assumes "CHR ''/'' \<in> set g"
  shows "\<not> v6Seg g"
proof
  assume "v6Seg g"
  then have "list_all isHexDigit g" by (simp add: v6Seg_def)
  from list_all_mem [OF this assms] slash_no_class show False by simp
qed

lemma slash_not_v6Count:
  assumes "g \<in> set gs" "CHR ''/'' \<in> set g"
  shows "v6Count gs = None"
proof -
  have a: "\<not> list_all v6Seg gs"
  proof
    assume "list_all v6Seg gs"
    from list_all_mem [OF this assms(1)] slash_not_v6Seg [OF assms(2)] show False by simp
  qed
  have "\<not> (gs \<noteq> [] \<and> list_all v6Seg (butlast gs) \<and> isIPv4 (last gs))"
  proof
    assume h: "gs \<noteq> [] \<and> list_all v6Seg (butlast gs) \<and> isIPv4 (last gs)"
    then have "gs = butlast gs @ [last gs]" by simp
    then have "set gs = set (butlast gs @ [last gs])" by simp
    then have "set gs = set (butlast gs) \<union> {last gs}" by (simp only: set_append list.set) 
    with assms(1) have "g \<in> set (butlast gs) \<or> g = last gs" by auto
    then show False
    proof
      assume "g \<in> set (butlast gs)"
      with h have "v6Seg g" by (simp add: list_all_iff)
      with slash_not_v6Seg [OF assms(2)] show False by simp
    next
      assume "g = last gs"
      with h slash_not_isIPv4 [OF assms(2)] show False by simp
    qed
  qed
  with a show ?thesis by (simp add: v6Count_def)
qed

lemma slash_not_v6Groups:
  assumes "CHR ''/'' \<in> set s"
  shows "v6Count (v6Groups s) = None" "\<not> list_all v6Seg (v6Groups s)"
proof -
  from assms have ne: "s \<noteq> []" by auto
  from split_str_chars [OF assms, of "'':''"] obtain g where
    g: "g \<in> set (split_str '':'' s)" "CHR ''/'' \<in> set g" by auto
  with ne show "v6Count (v6Groups s) = None"
    by (simp add: v6Groups_def slash_not_v6Count)
  show "\<not> list_all v6Seg (v6Groups s)"
  proof
    assume "list_all v6Seg (v6Groups s)"
    with ne g(1) have "v6Seg g" by (simp add: v6Groups_def list_all_iff)
    with slash_not_v6Seg [OF g(2)] show False by simp
  qed
qed

lemma slash_not_isIPv6Address:
  assumes "CHR ''/'' \<in> set s"
  shows "\<not> isIPv6Address s"
proof
  assume v6: "isIPv6Address s"
  from split_str_chars [OF assms, of "''::''"] obtain q where
    q: "q \<in> set (split_str ''::'' s)" and sl: "CHR ''/'' \<in> set q" by auto
  from v6 consider (one) whole where "split_str ''::'' s = [whole]"
      "v6Count (split_str '':'' whole) = Some 8"
    | (two) l r where "split_str ''::'' s = [l, r]" "list_all v6Seg (v6Groups l)"
      "v6Count (v6Groups r) \<noteq> None"
    unfolding isIPv6Address_def
    by (auto split: list.splits option.splits)
  then show False
  proof cases
    case one
    with q have "q = whole" by simp
    with sl have "CHR ''/'' \<in> set whole" by simp
    from split_str_chars [OF this, of "'':''"] obtain g where
      "g \<in> set (split_str '':'' whole)" "CHR ''/'' \<in> set g" by auto
    from slash_not_v6Count [OF this] one show False by simp
  next
    case two
    with q have "q = l \<or> q = r" by simp
    then show False
    proof
      assume "q = l"
      with sl have "CHR ''/'' \<in> set l" by simp
      from slash_not_v6Groups(2) [OF this] two(2) show False by simp
    next
      assume "q = r"
      with sl have "CHR ''/'' \<in> set r" by simp
      from slash_not_v6Groups(1) [OF this] two(3) show False by simp
    qed
  qed
qed

lemma slash_not_isIPv6:
  assumes "CHR ''/'' \<in> set s"
  shows "\<not> isIPv6 s"
proof
  assume v6: "isIPv6 s"
  from split_str_chars [OF assms, of "''%''"] obtain q where
    q: "q \<in> set (split_str ''%'' s)" and sl: "CHR ''/'' \<in> set q" by auto
  from v6 consider (plain) a where "split_str ''%'' s = [a]" "isIPv6Address a"
    | (zoned) a zone where "split_str ''%'' s = [a, zone]" "isIPv6Address a"
        "list_all zoneChar zone"
    unfolding isIPv6_def by (auto split: list.splits)
  then show False
  proof cases
    case plain
    with q sl have "CHR ''/'' \<in> set a" by simp
    from slash_not_isIPv6Address [OF this] plain(2) show False by simp
  next
    case zoned
    with q have "q = a \<or> q = zone" by simp
    then show False
    proof
      assume "q = a"
      with sl have "CHR ''/'' \<in> set a" by simp
      from slash_not_isIPv6Address [OF this] zoned(2) show False by simp
    next
      assume "q = zone"
      with sl have "CHR ''/'' \<in> set zone" by simp
      from list_all_mem [OF zoned(3) this] slash_no_class show False by simp
    qed
  qed
qed

lemma slash_isIP: "CHR ''/'' \<in> set s \<Longrightarrow> isIP s = 0"
  by (simp add: isIP_def slash_not_isIPv4 slash_not_isIPv6)

lemma cidrMatch_slash:
  assumes "cidrMatch s = Some (baseIp, maskStr)"
  shows "CHR ''/'' \<in> set s"
proof (rule ccontr)
  assume "CHR ''/'' \<notin> set s"
  then have "split_str ''/'' s = [s]" by (rule split_chr_no_sep)
  with assms show False by (simp add: cidrMatch_def)
qed

lemma cidrMatch_mask:
  assumes "cidrMatch s = Some (baseIp, maskStr)"
  shows "maskStr \<noteq> []" "list_all isDigit maskStr" "length maskStr \<le> 2"
  using assms unfolding cidrMatch_def
  by (auto split: list.splits if_splits)

lemma isDigit_not_space: "isDigit c \<Longrightarrow> \<not> isSpace c"
  by (auto simp: isDigit_def isSpace_def)

lemma isDigit_lt10: "isDigit c \<Longrightarrow> digitVal c < 10"
  by (rule isDigit_digitVal)

lemma takeWhile_digits: "list_all isDigit s \<Longrightarrow> takeWhile (\<lambda>c. digitVal c < 10) s = s"
  by (induction s) (simp_all add: isDigit_lt10)

lemma Number_two_digits:
  assumes "list_all isDigit s" "length s \<le> 2"
  shows "Number s < 100"
proof (cases s)
  case Nil
  then show ?thesis by (simp add: Number_def)
next
  case (Cons c cs)
  note s = this
  show ?thesis
  proof (cases cs)
    case Nil
    with s assms isDigit_lt10 [of c] show ?thesis by (simp add: Number_def)
  next
    case (Cons d ds)
    with s assms have "ds = []" by simp
    with s Cons assms isDigit_lt10 [of c] isDigit_lt10 [of d] show ?thesis
      by (simp add: Number_def)
  qed
qed

lemma parseInt_digits:
  assumes "s \<noteq> []" "list_all isDigit s" "length s \<le> 2"
  shows "parseInt s 10 = Some (int (Number s))"
proof -
  from assms obtain c cs where s: "s = c # cs" by (cases s) auto
  with assms have c: "isDigit c" by simp
  then have ns: "\<not> isSpace c" by (rule isDigit_not_space)
  from c have sign: "c \<noteq> CHR ''-''" "c \<noteq> CHR ''+''" by (auto simp: isDigit_def)
  have dw: "dropWhile isSpace s = s" using s ns by simp
  from Number_two_digits [OF assms(2,3)] have "Number s < 2 ^ 53" by simp
  then have td: "toDouble (foldl (\<lambda>n c. 10 * n + digitVal c) 0 s) = Some (Number s)"
    unfolding Number_def by (rule toDouble_small)
  have "parseInt s 10 = Some (int (foldl (\<lambda>n c. 10 * n + digitVal c) 0 s))"
    unfolding parseInt_def Let_def dw
    using assms sign s takeWhile_digits [OF assms(2)] td
    by (simp add: Number_def)
  then show ?thesis by (simp add: Number_def)
qed

subsection \<open>CIDR blocks\<close>

lemma iterate_Cons: "iterate (line # rest) e = iterateLine e line @ iterate rest e"
  by (simp add: iterate_def)

lemma iterate_append: "iterate (xs @ ys) e = iterate xs e @ iterate ys e"
  by (simp add: iterate_def)

lemma iterate_Nil: "iterate [] e = []"
  by (simp add: iterate_def)

lemma targets_append: "targets (xs @ ys) = targets xs @ targets ys"
  by (simp add: targets_def)

lemma warnings_append: "warnings (xs @ ys) = warnings xs @ warnings ys"
  by (simp add: warnings_def)

lemma targets_members: "length (targets (map (\<lambda>k. member line (f k)) ks)) = length ks"
  by (induction ks) (simp_all add: targets_def member_def)

lemma warnings_members: "warnings (map (\<lambda>k. member line (f k)) ks) = []"
  by (induction ks) (simp_all add: warnings_def member_def)

lemma iterateLine_cidr:
  assumes m: "cidrMatch (trim line) = Some (baseIp, maskStr)"
    and mask: "Number maskStr \<le> 32"
    and parts: "map Number (split_str ''.'' baseIp) = [a, b, c, d]"
    and oct: "a \<le> 255" "b \<le> 255" "c \<le> 255" "d \<le> 255"
  shows "iterateLine e line =
           map (\<lambda>k. member (trim line) (a * 2 ^ 24 + (b * 2 ^ 16 + c * 2 ^ 8 + d) + k))
               [0..<min (2 ^ (32 - Number maskStr)) (2 ^ 24 - (b * 2 ^ 16 + c * 2 ^ 8 + d))]"
proof -
  from cidrMatch_slash [OF m] have sl: "CHR ''/'' \<in> set (trim line)" .
  then have ne: "trim line \<noteq> []" by auto
  from slash_isIP [OF sl] have ip: "isIP (trim line) = 0" .
  from parseInt_digits [OF cidrMatch_mask [OF m]]
  have pi: "parseInt maskStr 10 = Some (int (Number maskStr))" .
  from mask have n: "nat (32 - int (Number maskStr)) = 32 - Number maskStr" by simp
  have "iterateLine e line = cidrLoop (2 ^ (32 - Number maskStr)) [a, b, c, d] (trim line)"
    using ne ip mask by (simp add: iterateLine_def Let_def m pi n parts)
  then show ?thesis by (simp only: cidrLoop_dotted [OF oct])
qed

text \<open>
  C1, as the loop has it. A line that matches the CIDR pattern, with a mask from 0 to 32,
  four base octets of at most 255, and a block that does not run past the last address
  that shares the base's first octet (the low 24 bits of the base plus \<open>2^(32-mask)\<close> is
  at most \<open>2^24\<close>), expands to exactly \<open>2^(32-mask)\<close> targets: the addresses of the
  values base, base + 1, ... in this order (all below \<open>2^32\<close>), each of kind CIDR with
  the trimmed line as origin. The lines before and after it are enumerated as usual.
\<close>

theorem cidr_expansion:
  assumes "cidrMatch (trim line) = Some (baseIp, maskStr)"
    and "Number maskStr \<le> 32"
    and "map Number (split_str ''.'' baseIp) = [a, b, c, d]"
    and "a \<le> 255" "b \<le> 255" "c \<le> 255" "d \<le> 255"
    and "b * 2 ^ 16 + c * 2 ^ 8 + d + 2 ^ (32 - Number maskStr) \<le> 2 ^ 24"
  shows "iterate (before @ line # after) enableIPv6 =
           iterate before enableIPv6
           @ map (\<lambda>k. Yield \<lparr>Host.ip = Some (dotted (a * 2 ^ 24 + b * 2 ^ 16 + c * 2 ^ 8 + d + k)),
                               Host.origin = trim line, type = CIDR\<rparr>)
                 [0..<2 ^ (32 - Number maskStr)]
           @ iterate after enableIPv6
         \<and> a * 2 ^ 24 + b * 2 ^ 16 + c * 2 ^ 8 + d + 2 ^ (32 - Number maskStr) \<le> 2 ^ 32"
proof
  let ?r = "b * 2 ^ 16 + c * 2 ^ 8 + d"
  from assms(8) have mn: "min (2 ^ (32 - Number maskStr)) (2 ^ 24 - ?r) = 2 ^ (32 - Number maskStr)"
    by simp
  have "iterateLine enableIPv6 line =
          map (\<lambda>k. member (trim line) (a * 2 ^ 24 + ?r + k)) [0..<2 ^ (32 - Number maskStr)]"
    using iterateLine_cidr [OF assms(1-7), of enableIPv6] by (simp only: mn)
  then show "iterate (before @ line # after) enableIPv6 =
           iterate before enableIPv6
           @ map (\<lambda>k. Yield \<lparr>Host.ip = Some (dotted (a * 2 ^ 24 + b * 2 ^ 16 + c * 2 ^ 8 + d + k)),
                               Host.origin = trim line, type = CIDR\<rparr>)
                 [0..<2 ^ (32 - Number maskStr)]
           @ iterate after enableIPv6"
    by (simp add: iterate_append iterate_Cons member_def add.assoc)
  from assms(4) have "a * 2 ^ 24 \<le> 255 * 2 ^ 24" by simp
  with assms(8) show "a * 2 ^ 24 + b * 2 ^ 16 + c * 2 ^ 8 + d + 2 ^ (32 - Number maskStr) \<le> 2 ^ 32"
    by simp
qed

text \<open>C1 at the line \<open>10.0.0.0/30\<close>, surrounded by blanks.\<close>

lemma slash30_facts:
  "trim '' 10.0.0.0/30 '' = ''10.0.0.0/30''"
  "cidrMatch ''10.0.0.0/30'' = Some (''10.0.0.0'', ''30'')"
  by code_simp+

lemma slash30_numbers:
  "Number ''30'' = 30" "map Number (split_str ''.'' ''10.0.0.0'') = [10, 0, 0, 0]"
  by (simp_all add: Number_def digitVal_def)

lemma dotted_10_0_0:
  "dotted 167772160 = ''10.0.0.0''" "dotted 167772161 = ''10.0.0.1''"
  "dotted 167772162 = ''10.0.0.2''" "dotted 167772163 = ''10.0.0.3''"
  by (simp_all add: dotted_def octetsOf_def dec_str.simps)

lemma map_upt_4: "map f [0..<4] = [f 0, f 1, f 2, f 3]"
proof -
  have "[0..<4] = [0, 1, 2, 3::nat]" by code_simp
  then show ?thesis by simp
qed

theorem cidr_expansion_witness:
  "iterate ['' 10.0.0.0/30 ''] True =
     [Yield \<lparr>Host.ip = Some ''10.0.0.0'', Host.origin = ''10.0.0.0/30'', type = CIDR\<rparr>,
      Yield \<lparr>Host.ip = Some ''10.0.0.1'', Host.origin = ''10.0.0.0/30'', type = CIDR\<rparr>,
      Yield \<lparr>Host.ip = Some ''10.0.0.2'', Host.origin = ''10.0.0.0/30'', type = CIDR\<rparr>,
      Yield \<lparr>Host.ip = Some ''10.0.0.3'', Host.origin = ''10.0.0.0/30'', type = CIDR\<rparr>]"
  using cidr_expansion [of "'' 10.0.0.0/30 ''" "''10.0.0.0''" "''30''" 10 0 0 0 "[]" "[]" True]
  by (simp add: slash30_facts slash30_numbers iterate_Nil map_upt_4 dotted_10_0_0
      del: split_str.simps upt.simps upt_rec_numeral)

lemma slash7_facts:
  "trim ''10.0.0.0/7'' = ''10.0.0.0/7''"
  "cidrMatch ''10.0.0.0/7'' = Some (''10.0.0.0'', ''7'')"
  by code_simp+

lemma slash7_numbers: "Number ''7'' = 7"
  by (simp add: Number_def digitVal_def)

text \<open>
  C1 as stated fails: \<open>10.0.0.0/7\<close> has \<open>2^25\<close> addresses, and the expansion stops
  after the \<open>2^24\<close> that start with \<open>10\<close>, where the loop breaks instead of carrying
  into the first octet.
\<close>

theorem cidr_slash7_counterexample:
  "length (targets (iterate [''10.0.0.0/7''] True)) = 2 ^ 24
   \<and> length (targets (iterate [''10.0.0.0/7''] True)) \<noteq> 2 ^ (32 - 7)"
proof -
  have "iterateLine True ''10.0.0.0/7'' =
          map (\<lambda>k. member ''10.0.0.0/7'' (10 * 2 ^ 24 + (0 * 2 ^ 16 + 0 * 2 ^ 8 + 0) + k))
              [0..<min (2 ^ (32 - Number ''7'')) (2 ^ 24 - (0 * 2 ^ 16 + 0 * 2 ^ 8 + 0))]"
    using iterateLine_cidr [of "''10.0.0.0/7''" "''10.0.0.0''" "''7''" 10 0 0 0 True]
    by (simp only: slash7_facts slash30_numbers slash7_numbers)
  then have "length (targets (iterate [''10.0.0.0/7''] True)) = min (2 ^ (32 - 7)) (2 ^ 24)"
    by (simp only: iterate_Cons iterate_Nil append_Nil2 targets_members slash7_numbers) simp
  then show ?thesis by simp
qed

subsection \<open>Mixed lines\<close>

lemma isIP_empty: "isIP [] = 0"
  by code_simp

lemma iterateLine_ip:
  assumes "isIP (trim line) = 4 \<or> (isIP (trim line) = 6 \<and> e)"
  shows "iterateLine e line
           = [Yield \<lparr>Host.ip = Some (trim line), Host.origin = trim line, type = IP\<rparr>]"
proof -
  from assms isIP_empty have "trim line \<noteq> []" by auto
  with assms show ?thesis by (simp add: iterateLine_def Let_def)
qed

lemma iterateLine_bad_mask:
  assumes "cidrMatch (trim line) = Some (baseIp, maskStr)" "32 < Number maskStr"
  shows "iterateLine e line = []"
proof -
  from cidrMatch_slash [OF assms(1)] have sl: "CHR ''/'' \<in> set (trim line)" .
  from slash_isIP [OF sl] have ip: "isIP (trim line) = 0" .
  from parseInt_digits [OF cidrMatch_mask [OF assms(1)]]
  have pi: "parseInt maskStr 10 = Some (int (Number maskStr))" .
  from assms(2) ip show ?thesis by (simp add: iterateLine_def Let_def assms(1) pi)
qed

lemma domain_chars:
  assumes "validateDomainName s"
  shows "CHR ''/'' \<notin> set s" "CHR '':'' \<notin> set s" "CHR ''%'' \<notin> set s" "s \<noteq> []"
proof -
  have no: "\<not> (isAlpha c \<or> isDigit c \<or> c = CHR ''-'' \<or> c = CHR ''.'')"
    if "c = CHR ''/'' \<or> c = CHR '':'' \<or> c = CHR ''%''" for c
    using that by (auto simp: isAlpha_def isDigit_def)
  from assms have all: "\<forall>c\<in>set s. isAlpha c \<or> isDigit c \<or> c = CHR ''-'' \<or> c = CHR ''.''"
    by (simp add: validateDomainName_def list_all_iff)
  from all no show "CHR ''/'' \<notin> set s" by blast
  from all no show "CHR '':'' \<notin> set s" by blast
  from all no show "CHR ''%'' \<notin> set s" by blast
  from assms show "s \<noteq> []" by (simp add: validateDomainName_def)
qed

lemma no_colon_not_isIPv6:
  assumes "CHR '':'' \<notin> set s" "CHR ''%'' \<notin> set s"
  shows "\<not> isIPv6 s"
proof -
  have pct: "split_str ''%'' s = [s]" using assms(2) by (rule split_chr_no_sep)
  have col: "split_str '':'' s = [s]" using assms(1) by (rule split_chr_no_sep)
  have dbl: "split_str ''::'' s = [s]" using assms(1)
    by (induction s) (auto split: list.splits)
  have "v6Count [s] \<noteq> Some 8" by (simp add: v6Count_def)
  then show ?thesis by (simp add: isIPv6_def pct isIPv6Address_def dbl col)
qed

lemma iterateLine_domain:
  assumes "validateDomainName (trim line)"
  shows "length (targets (iterateLine e line)) = 1" "warnings (iterateLine e line) = []"
proof -
  note dc = domain_chars [OF assms]
  have cm: "cidrMatch (trim line) = None"
    using split_chr_no_sep [OF dc(1)] by (simp add: cidrMatch_def)
  have v6: "isIP (trim line) \<noteq> 6"
    using no_colon_not_isIPv6 [OF dc(2,3)] by (simp add: isIP_def)
  from dc(4) cm v6 assms show "length (targets (iterateLine e line)) = 1"
    by (simp add: iterateLine_def Let_def targets_def)
  from dc(4) cm v6 assms show "warnings (iterateLine e line) = []"
    by (simp add: iterateLine_def Let_def warnings_def)
qed

lemma iterateLine_invalid:
  assumes "trim line \<noteq> []" "\<not> (isIP (trim line) = 4 \<or> (isIP (trim line) = 6 \<and> e))"
    "cidrMatch (trim line) = None" "\<not> validateDomainName (trim line)"
  shows "iterateLine e line = [Warn (''Not a valid IP, CIDR, or domain: '' @ trim line)]"
  using assms by (simp add: iterateLine_def Let_def)

lemma length_targets_iterate:
  "length (targets (iterate lines e))
     = sum_mset (image_mset (\<lambda>l. length (targets (iterateLine e l))) (mset lines))"
  by (induction lines) (simp_all add: iterate_Nil iterate_Cons targets_append targets_def)

lemma mset_warnings_iterate:
  "mset (warnings (iterate lines e))
     = sum_mset (image_mset (\<lambda>l. mset (warnings (iterateLine e l))) (mset lines))"
  by (induction lines) (simp_all add: iterate_Nil iterate_Cons warnings_append warnings_def)

lemma mset_single_list: "mset xs = {#x#} \<Longrightarrow> xs = [x]"
  by (metis mset.simps(1) mset.simps(2) mset_eq_setD mset_single_iff_right
        add_mset_eq_single list.exhaust)

text \<open>
  C5, as the loop has it. A line source made of, in any order: one valid literal IP; one CIDR with mask
  \<open>/30\<close> and octets of at most 255 whose four addresses do not run past the last
  address with the base's first octet (as for every base aligned to a multiple of 4);
  one CIDR with mask \<open>/33\<close>; one domain token; and one non-blank token that is no IP,
  no CIDR and no domain token. \<^verbatim>\<open>iterate\<close> yields exactly 6 targets, 1 + 4 + 0 + 1 + 0;
  the \<open>/33\<close> line produces nothing at all, the invalid token produces one warning and
  no target, and wherever it stands the other lines are still enumerated.
\<close>

theorem iterate_mixed_lines:
  assumes ip: "isIP (trim ipLine) = 4 \<or> (isIP (trim ipLine) = 6 \<and> enableIPv6)"
    and cidr: "cidrMatch (trim cidrLine) = Some (baseIp, ''30'')"
      "map Number (split_str ''.'' baseIp) = [a, b, c, d]"
      "a \<le> 255" "b \<le> 255" "c \<le> 255" "d \<le> 255"
      "b * 2 ^ 16 + c * 2 ^ 8 + d + 4 \<le> 2 ^ 24"
    and bad: "cidrMatch (trim badLine) = Some (badBase, ''33'')"
    and dom: "validateDomainName (trim domainLine)"
    and inv: "trim invalidLine \<noteq> []"
      "\<not> (isIP (trim invalidLine) = 4 \<or> (isIP (trim invalidLine) = 6 \<and> enableIPv6))"
      "cidrMatch (trim invalidLine) = None" "\<not> validateDomainName (trim invalidLine)"
    and lines: "mset lines = {#ipLine, cidrLine, badLine, domainLine, invalidLine#}"
  shows "length (targets (iterate lines enableIPv6)) = 6
       \<and> length (targets (iterateLine enableIPv6 ipLine)) = 1
       \<and> length (targets (iterateLine enableIPv6 cidrLine)) = 4
       \<and> iterateLine enableIPv6 badLine = []
       \<and> length (targets (iterateLine enableIPv6 domainLine)) = 1
       \<and> iterateLine enableIPv6 invalidLine
            = [Warn (''Not a valid IP, CIDR, or domain: '' @ trim invalidLine)]
       \<and> warnings (iterate lines enableIPv6)
            = [''Not a valid IP, CIDR, or domain: '' @ trim invalidLine]"
proof -
  have n30: "Number ''30'' = 30" and n33: "Number ''33'' = 33"
    by (simp_all add: Number_def digitVal_def)
  have t1: "length (targets (iterateLine enableIPv6 ipLine)) = 1"
    and w1: "warnings (iterateLine enableIPv6 ipLine) = []"
    by (simp_all add: iterateLine_ip [OF ip] targets_def warnings_def)
  have m: "min (2 ^ (32 - Number ''30'')) (2 ^ 24 - (b * 2 ^ 16 + c * 2 ^ 8 + d)) = 4"
    using cidr(7) by (simp add: n30)
  have l2: "iterateLine enableIPv6 cidrLine =
              map (\<lambda>k. member (trim cidrLine) (a * 2 ^ 24 + (b * 2 ^ 16 + c * 2 ^ 8 + d) + k))
                  [0..<4]"
    using iterateLine_cidr [OF cidr(1) _ cidr(2-6), of enableIPv6] cidr(7)
    by (simp add: n30 min_absorb1)
  have t2: "length (targets (iterateLine enableIPv6 cidrLine)) = 4"
    and w2: "warnings (iterateLine enableIPv6 cidrLine) = []"
    by (simp_all only: l2 targets_members warnings_members) simp
  have l3: "iterateLine enableIPv6 badLine = []"
    using iterateLine_bad_mask [OF bad] by (simp add: n33)
  note t4 = iterateLine_domain(1) [OF dom, of enableIPv6]
  note w4 = iterateLine_domain(2) [OF dom, of enableIPv6]
  note l5 = iterateLine_invalid [OF inv]
  have t3: "length (targets (iterateLine enableIPv6 badLine)) = 0"
    and w3: "warnings (iterateLine enableIPv6 badLine) = []"
    by (simp_all add: l3 targets_def warnings_def)
  have t5: "length (targets (iterateLine enableIPv6 invalidLine)) = 0"
    and w5: "warnings (iterateLine enableIPv6 invalidLine)
               = [''Not a valid IP, CIDR, or domain: '' @ trim invalidLine]"
    by (simp_all add: l5 targets_def warnings_def)
  have total: "length (targets (iterate lines enableIPv6)) = 6"
    by (simp add: length_targets_iterate lines t1 t2 t3 t4 t5)
  have "mset (warnings (iterate lines enableIPv6))
          = {#''Not a valid IP, CIDR, or domain: '' @ trim invalidLine#}"
    by (simp add: mset_warnings_iterate lines w1 w2 w3 w4 w5)
  then have warn: "warnings (iterate lines enableIPv6)
          = [''Not a valid IP, CIDR, or domain: '' @ trim invalidLine]"
    by (rule mset_single_list)
  from total t1 t2 l3 t4 l5 warn show ?thesis by simp
qed

text \<open>C5 on five lines, the invalid token first.\<close>

lemma mixed_facts:
  "isIP (trim ''1.2.3.4'') = 4"
  "cidrMatch (trim '' 10.0.0.0/30 '') = Some (''10.0.0.0'', ''30'')"
  "cidrMatch (trim ''10.0.0.0/33'') = Some (''10.0.0.0'', ''33'')"
  "validateDomainName (trim ''example.com'')"
  "trim ''bad_token!'' = ''bad_token!''"
  "isIP ''bad_token!'' = 0"
  "cidrMatch ''bad_token!'' = None"
  "\<not> validateDomainName ''bad_token!''"
  by code_simp+

theorem iterate_mixed_lines_witness:
  "length (targets (iterate [''bad_token!'', ''10.0.0.0/33'', ''1.2.3.4'', '' 10.0.0.0/30 '',
                             ''example.com''] True)) = 6
   \<and> warnings (iterate [''bad_token!'', ''10.0.0.0/33'', ''1.2.3.4'', '' 10.0.0.0/30 '',
                        ''example.com''] True)
        = [''Not a valid IP, CIDR, or domain: bad_token!'']
   \<and> iterateLine True ''10.0.0.0/33'' = []"
  using iterate_mixed_lines [of "''1.2.3.4''" True "'' 10.0.0.0/30 ''" "''10.0.0.0''" 10 0 0 0
      "''10.0.0.0/33''" "''10.0.0.0''" "''example.com''" "''bad_token!''"
      "[''bad_token!'', ''10.0.0.0/33'', ''1.2.3.4'', '' 10.0.0.0/30 '', ''example.com'']"]
  by (simp add: mixed_facts slash30_numbers del: split_str.simps)

lemma unaligned_facts:
  "isIP (trim ''1.2.3.4'') = 4"
  "cidrMatch (trim ''10.255.255.254/30'') = Some (''10.255.255.254'', ''30'')"
  "map Number (split_str ''.'' ''10.255.255.254'') = [10, 255, 255, 254]"
  "cidrMatch (trim ''10.0.0.0/33'') = Some (''10.0.0.0'', ''33'')"
  "validateDomainName (trim ''example.com'')"
  "trim ''bad_token!'' \<noteq> []"
  "isIP (trim ''bad_token!'') = 0"
  "cidrMatch (trim ''bad_token!'') = None"
  "\<not> validateDomainName (trim ''bad_token!'')"
  by code_simp+

lemma unaligned_lines:
  "iterateLine True ''1.2.3.4''
     = [Yield \<lparr>Host.ip = Some ''1.2.3.4'', Host.origin = ''1.2.3.4'', type = IP\<rparr>]"
  "iterateLine True ''10.255.255.254/30''
     = [Yield \<lparr>Host.ip = Some ''10.255.255.254'', Host.origin = ''10.255.255.254/30'',
               type = CIDR\<rparr>,
        Yield \<lparr>Host.ip = Some ''10.255.255.255'', Host.origin = ''10.255.255.254/30'',
               type = CIDR\<rparr>]"
  "iterateLine True ''10.0.0.0/33'' = []"
  "iterateLine True ''example.com''
     = [Yield \<lparr>Host.ip = None, Host.origin = ''example.com'', type = Domain\<rparr>]"
  "iterateLine True ''bad_token!'' = [Warn ''Not a valid IP, CIDR, or domain: bad_token!'']"
  by code_simp+

text \<open>
  C5 as stated fails: with the \<open>/30\<close> line \<open>10.255.255.254/30\<close>, whose octets are
  all at most 255, the five lines give 4 targets and not 6. The loop yields
  \<open>10.255.255.254\<close> and \<open>10.255.255.255\<close> and then breaks, where the second octet
  passes 255, instead of carrying into the first octet for the two addresses that remain.
\<close>

theorem iterate_unaligned_slash30_counterexample:
  "targets (iterate [''1.2.3.4'', ''10.255.255.254/30'', ''10.0.0.0/33'', ''example.com'',
                     ''bad_token!''] True)
     = [\<lparr>Host.ip = Some ''1.2.3.4'', Host.origin = ''1.2.3.4'', type = IP\<rparr>,
        \<lparr>Host.ip = Some ''10.255.255.254'', Host.origin = ''10.255.255.254/30'', type = CIDR\<rparr>,
        \<lparr>Host.ip = Some ''10.255.255.255'', Host.origin = ''10.255.255.254/30'', type = CIDR\<rparr>,
        \<lparr>Host.ip = None, Host.origin = ''example.com'', type = Domain\<rparr>]
   \<and> length (targets (iterate [''1.2.3.4'', ''10.255.255.254/30'', ''10.0.0.0/33'',
                               ''example.com'', ''bad_token!''] True)) \<noteq> 6
   \<and> isIP (trim ''1.2.3.4'') = 4
   \<and> cidrMatch (trim ''10.255.255.254/30'') = Some (''10.255.255.254'', ''30'')
   \<and> map Number (split_str ''.'' ''10.255.255.254'') = [10, 255, 255, 254]
   \<and> cidrMatch (trim ''10.0.0.0/33'') = Some (''10.0.0.0'', ''33'')
   \<and> validateDomainName (trim ''example.com'')
   \<and> trim ''bad_token!'' \<noteq> [] \<and> isIP (trim ''bad_token!'') = 0
   \<and> cidrMatch (trim ''bad_token!'') = None \<and> \<not> validateDomainName (trim ''bad_token!'')"
proof -
  have "targets (iterate [''1.2.3.4'', ''10.255.255.254/30'', ''10.0.0.0/33'', ''example.com'',
                     ''bad_token!''] True)
     = [\<lparr>Host.ip = Some ''1.2.3.4'', Host.origin = ''1.2.3.4'', type = IP\<rparr>,
        \<lparr>Host.ip = Some ''10.255.255.254'', Host.origin = ''10.255.255.254/30'', type = CIDR\<rparr>,
        \<lparr>Host.ip = Some ''10.255.255.255'', Host.origin = ''10.255.255.254/30'', type = CIDR\<rparr>,
        \<lparr>Host.ip = None, Host.origin = ''example.com'', type = Domain\<rparr>]"
    by (simp add: iterate_def unaligned_lines targets_def)
  then show ?thesis
    by (simp only: unaligned_facts) simp
qed

section \<open>The walk from an IPv4 seed\<close>

lemma dotted_nonempty: "dotted n \<noteq> []"
  by (simp add: dotted_def octetsOf_def dec_str_nonempty)

lemma low_step:
  assumes "n < 2 ^ 32"
  shows "js_or (nextIP (dotted n) False True) (dotted n) = dotted (n - 1)"
  using nextIP_dotted_down [OF assms, of True]
  by (cases "0 < n") (simp_all add: js_or_def dotted_nonempty)

lemma high_step:
  assumes "n < 2 ^ 32"
  shows "js_or (nextIP (dotted n) True True) (dotted n) = dotted (min (n + 1) 4294967295)"
proof (cases "n + 1 < 2 ^ 32")
  case True
  then have "min (n + 1) 4294967295 = n + 1" by simp
  with nextIP_dotted_up [OF assms, of True] True show ?thesis
    by (simp add: js_or_def dotted_nonempty)
next
  case False
  with assms have "min (n + 1) 4294967295 = n" by simp
  with nextIP_dotted_up [OF assms, of True] False show ?thesis
    by (simp add: js_or_def)
qed

lemma walkTarget_even_step:
  assumes "even i"
  shows "walkTarget i lo hi 0 = ipHost (dotted (lo - 1))"
    and "walkTarget i lo hi (Suc j) = walkTarget (i + 1) (lo - 1) hi j"
proof -
  from assms have m: "i mod 2 = 0" "(i + 1) mod 2 = 1" by presburger+
  show "walkTarget i lo hi 0 = ipHost (dotted (lo - 1))"
    using assms by (simp add: walkTarget_def m)
  have a: "lo - (Suc j + 2 - 0) div 2 = lo - 1 - (j + 2 - 1) div 2" by presburger
  have b: "(Suc j + 1 + 0) div 2 = (j + 1 + 1) div 2" by simp
  show "walkTarget i lo hi (Suc j) = walkTarget (i + 1) (lo - 1) hi j"
    unfolding walkTarget_def m by (simp only: a b) simp
qed

lemma walkTarget_odd_step:
  assumes "odd i"
  shows "walkTarget i lo hi 0 = ipHost (dotted (min (hi + 1) 4294967295))"
    and "walkTarget i lo hi (Suc j) = walkTarget (i + 1) lo (min (hi + 1) 4294967295) j"
proof -
  from assms have m: "i mod 2 = 1" "(i + 1) mod 2 = 0" by presburger+
  show "walkTarget i lo hi 0 = ipHost (dotted (min (hi + 1) 4294967295))"
    using assms by (simp add: walkTarget_def m)
  have a: "(Suc j + 2 - 1) div 2 = (j + 2 - 0) div 2" by simp
  have b: "min (hi + (Suc j + 1 + 1) div 2) 4294967295
           = min (min (hi + 1) 4294967295 + (j + 1 + 0) div 2) 4294967295"
  proof -
    have "(Suc j + 1 + 1) div 2 = 1 + (j + 1 + 0) div 2" by presburger
    then show ?thesis by (simp add: min_def)
  qed
  show "walkTarget i lo hi (Suc j) = walkTarget (i + 1) lo (min (hi + 1) 4294967295) j"
    unfolding walkTarget_def m by (simp only: a b) simp
qed

lemma walk_ipv4:
  "lo < 2 ^ 32 \<Longrightarrow> hi < 2 ^ 32 \<Longrightarrow>
   walk pulls i (dotted lo) (dotted hi)
     = map (walkTarget i lo hi) [0..<min pulls (MAX_SAFE_INTEGER - i)]"
proof (induction pulls arbitrary: i lo hi)
  case 0
  then show ?case by simp
next
  case (Suc pulls)
  show ?case
  proof (cases "i < MAX_SAFE_INTEGER")
    case False
    then show ?thesis by simp
  next
    case True
    then have m: "min (Suc pulls) (MAX_SAFE_INTEGER - i)
                  = Suc (min pulls (MAX_SAFE_INTEGER - (i + 1)))" by simp
    show ?thesis
    proof (cases "even i")
      case ev: True
      from Suc.prems have lo': "lo - 1 < 2 ^ 32" by simp
      have "walk (Suc pulls) i (dotted lo) (dotted hi)
            = ipHost (dotted (lo - 1)) # walk pulls (i + 1) (dotted (lo - 1)) (dotted hi)"
      proof -
        from ev have "i mod 2 = 0" by presburger
        with True show ?thesis
          by (simp add: low_step [OF Suc.prems(1)] ipHost_def Let_def)
      qed
      also have "\<dots> = walkTarget i lo hi 0
                        # map (\<lambda>j. walkTarget i lo hi (Suc j))
                              [0..<min pulls (MAX_SAFE_INTEGER - (i + 1))]"
        by (simp only: Suc.IH [OF lo' Suc.prems(2)] walkTarget_even_step [OF ev])
      finally show ?thesis by (simp only: m map_upt_Suc_shift)
    next
      case od: False
      have hi': "min (hi + 1) 4294967295 < (2::nat) ^ 32" by simp
      have "walk (Suc pulls) i (dotted lo) (dotted hi)
            = ipHost (dotted (min (hi + 1) 4294967295))
              # walk pulls (i + 1) (dotted lo) (dotted (min (hi + 1) 4294967295))"
      proof -
        from od have "i mod 2 \<noteq> 0" by presburger
        with True show ?thesis
          by (simp add: high_step [OF Suc.prems(2)] ipHost_def Let_def del: min_Suc_numeral min_numeral_Suc)
      qed
      also have "\<dots> = walkTarget i lo hi 0
                        # map (\<lambda>j. walkTarget i lo hi (Suc j))
                              [0..<min pulls (MAX_SAFE_INTEGER - (i + 1))]"
        by (simp only: Suc.IH [OF Suc.prems(1) hi'] walkTarget_odd_step [OF od])
      finally show ?thesis by (simp only: m map_upt_Suc_shift)
    qed
  qed
qed


lemma ipv4_seed_facts:
  assumes "isIPv4 seed"
  shows "cidrMatch seed = None" "isIP seed \<noteq> 0"
proof -
  from assms show ip: "isIP seed \<noteq> 0" by (simp add: isIP_def)
  show "cidrMatch seed = None"
  proof (cases "cidrMatch seed")
    case None
    then show ?thesis .
  next
    case (Some p)
    obtain baseIp maskStr where "p = (baseIp, maskStr)" by (cases p)
    with Some have "CHR ''/'' \<in> set seed" by (simp add: cidrMatch_slash)
    then have "isIP seed = 0" by (rule slash_isIP)
    with ip show ?thesis by simp
  qed
qed

lemma iterateAddr_dotted:
  assumes "n < 2 ^ 32"
  shows "iterateAddr lookup (dotted n) pulls
           = take pulls (ipHost (dotted n)
               # map (walkTarget 0 n n) [0..<min (pulls - 1) MAX_SAFE_INTEGER])"
proof -
  have "iterateAddr lookup (dotted n) pulls
          = take pulls (ipHost (dotted n) # walk (pulls - 1) 0 (dotted n) (dotted n))"
    by (simp add: iterateAddr_def ipv4_seed_facts [OF isIPv4_dotted] ipHost_def)
  then show ?thesis
    using walk_ipv4 [OF assms assms, of "pulls - 1" 0] by simp
qed

lemma iterateAddr_ipv4:
  assumes "isIPv4 seed"
  shows "\<exists>n. n < 2 ^ 32 \<and> seed = dotted n
           \<and> iterateAddr lookup seed pulls
               = take pulls (ipHost seed
                   # map (walkTarget 0 n n) [0..<min (pulls - 1) MAX_SAFE_INTEGER])"
proof -
  from isIPv4_is_dotted [OF assms] obtain n where n: "n < 2 ^ 32" "seed = dotted n" by blast
  with iterateAddr_dotted [OF n(1), of lookup pulls] show ?thesis by blast
qed

lemma iterateAddr_ipv4_nth:
  assumes "isIPv4 seed" "0 < k" "k < pulls" "k \<le> MAX_SAFE_INTEGER"
  shows "\<exists>n. n < 2 ^ 32 \<and> seed = dotted n
           \<and> iterateAddr lookup seed pulls ! 0 = ipHost seed
           \<and> iterateAddr lookup seed pulls ! k
               = ipHost (dotted (if odd k then n - (k + 1) div 2
                                 else min (n + k div 2) 4294967295))"
proof -
  from iterateAddr_ipv4 [OF assms(1), of lookup pulls] obtain n where
    n: "n < 2 ^ 32" "seed = dotted n" and
    it: "iterateAddr lookup seed pulls
           = take pulls (ipHost seed
               # map (walkTarget 0 n n) [0..<min (pulls - 1) MAX_SAFE_INTEGER])" by blast
  from assms obtain j where j: "k = Suc j" by (cases k) simp_all
  with assms have jlt: "j < min (pulls - 1) MAX_SAFE_INTEGER" by simp
  have a: "(j + 2) div 2 = (Suc j + 1) div 2" by simp
  have b: "odd j \<Longrightarrow> (j + 1) div 2 = Suc j div 2" by simp
  from assms have "iterateAddr lookup seed pulls ! 0 = ipHost seed" by (simp add: it)
  moreover from assms jlt have "iterateAddr lookup seed pulls ! k = walkTarget 0 n n j"
    by (simp add: it j)
  moreover have "walkTarget 0 n n j
      = ipHost (dotted (if odd k then n - (k + 1) div 2 else min (n + k div 2) 4294967295))"
    by (simp add: walkTarget_def j)
  ultimately show ?thesis using n by auto
qed

lemma dotted_10_0_0_5:
  "dotted 167772165 = ''10.0.0.5''" "dotted 167772164 = ''10.0.0.4''"
  "dotted 167772166 = ''10.0.0.6''" "dotted 167772163 = ''10.0.0.3''"
  "dotted 167772167 = ''10.0.0.7''"
  by (simp_all add: dotted_def octetsOf_def dec_str.simps)

lemma iterateAddr_example:
  "map Host.ip (iterateAddr lookup ''10.0.0.5'' 5)
     = [Some ''10.0.0.5'', Some ''10.0.0.4'', Some ''10.0.0.6'', Some ''10.0.0.3'',
        Some ''10.0.0.7'']"
proof -
  have m: "min (5 - 1) MAX_SAFE_INTEGER = 4" by (simp add: MAX_SAFE_INTEGER_def)
  have w: "walkTarget 0 167772165 167772165 0 = ipHost (dotted 167772164)"
    "walkTarget 0 167772165 167772165 (Suc 0) = ipHost (dotted 167772166)"
    "walkTarget 0 167772165 167772165 2 = ipHost (dotted 167772163)"
    "walkTarget 0 167772165 167772165 3 = ipHost (dotted 167772167)"
    by (simp_all add: walkTarget_def)
  have "iterateAddr lookup (dotted 167772165) 5
          = take 5 (ipHost (dotted 167772165) # map (walkTarget 0 167772165 167772165) [0..<4])"
    using iterateAddr_dotted [of 167772165 lookup 5] by (simp only: m) simp
  then show ?thesis
    by (simp add: map_upt_4 w dotted_10_0_0_5 ipHost_def del: upt.simps upt_rec_numeral)
qed

text \<open>
  C4 holds for every IPv4 seed, as the lemmas above say: the first target is the seed, the
  targets at the odd positions go down by one from the seed and those at the even
  positions go up by one, each side repeating nothing and skipping nothing until it stands
  at its boundary. It fails at the seed \<open>::ffff:1.2.3.4\<close>, an IPv4-mapped IPv6 literal that
  \<^verbatim>\<open>net.isIP\<close> accepts: the first target is the seed, but the second and third are
  \<open>::ffff:0\<close> and \<open>::ffff:2\<close>, not the addresses one below and one above the seed
  (\<open>::ffff:102:303\<close> and \<open>::ffff:102:305\<close>). \<^verbatim>\<open>expandIPv6\<close> keeps the dotted tail as
  one group and \<^verbatim>\<open>parseInt("1.2.3.4", 16)\<close> reads it as 1.
\<close>

theorem iterateAddr_mapped_ipv6:
  "map Host.ip (iterateAddr noLookup ''::ffff:1.2.3.4'' 3)
     = [Some ''::ffff:1.2.3.4'', Some ''::ffff:0'', Some ''::ffff:2'']"
  by (simp add: iterateAddr_def mapped_facts walk_two mapped_down mapped_up js_or_def Let_def)

section \<open>Properties of the prober\<close>

lemma js_or_unknown: "js_or p ''unknown'' = ''TLSv1.3'' \<longleftrightarrow> p = Some ''TLSv1.3''"
  by (auto simp: js_or_def split: option.splits)

lemma js_or_none: "js_or (Some a) ''none'' = ''h2'' \<longleftrightarrow> a = ''h2''"
  by (auto simp: js_or_def)

lemma scanTLS_try_result:
  assumes "scanTLS_try net host = Inr (Some r)"
  shows "feasible r =
           (tlsVersion r = ''TLSv1.3'' \<and> TLSScanResult.alpn r = ''h2''
            \<and> domain r \<noteq> [] \<and> TLSScanResult.issuer r \<noteq> [])"
  using assms
  by (auto simp: scanTLS_try_def Let_def isFeasible_def js_or_unknown js_or_none
           split: option.splits sum.splits if_splits)

lemma js_or_h2: "js_or a [] = ''h2'' \<longleftrightarrow> a = Some ''h2''"
  by (auto simp: js_or_def split: option.splits)

lemma scanTLS_try_socket:
  assumes "scanTLS_try net host = Inr (Some r)"
  shows "\<exists>hostIp tlsSocket cert subj.
            resolveHost net host = Some hostIp
          \<and> performTLSHandshake net hostIp
               (if Host.type host = Domain then Some (Host.origin host) else None)
              = Inr tlsSocket
          \<and> getPeerCertificate tlsSocket = Some cert \<and> subject cert = Some subj
          \<and> domain r = js_or (CN subj) [] \<and> TLSScanResult.issuer r = issuersOf cert
          \<and> (feasible r \<longleftrightarrow>
                getProtocol tlsSocket = Some ''TLSv1.3''
              \<and> alpnProtocol tlsSocket = Some ''h2''
              \<and> js_or (CN subj) [] \<noteq> [] \<and> issuersOf cert \<noteq> [])"
proof -
  from assms obtain hostIp where h: "resolveHost net host = Some hostIp"
    by (auto simp: scanTLS_try_def split: option.splits)
  from assms h obtain sock where c: "createConnection net hostIp port = Inr sock"
    by (auto simp: scanTLS_try_def split: sum.splits)
  let ?sn = "if Host.type host = Domain then Some (Host.origin host) else None"
  from assms h c obtain tlsSocket where t: "performTLSHandshake net hostIp ?sn = Inr tlsSocket"
    by (auto simp: scanTLS_try_def split: sum.splits)
  from assms h c t obtain cert where ce: "getPeerCertificate tlsSocket = Some cert"
    by (auto simp: scanTLS_try_def split: option.splits)
  from assms h c t ce obtain subj where s: "subject cert = Some subj"
    by (auto simp: scanTLS_try_def split: option.splits)
  from assms h c t ce s have r: "domain r = js_or (CN subj) []"
    "TLSScanResult.issuer r = issuersOf cert"
    "feasible r = isFeasible (getProtocol tlsSocket) (js_or (alpnProtocol tlsSocket) [])
                    (js_or (CN subj) []) (issuersOf cert)"
    by (auto simp: scanTLS_try_def Let_def)
  from r(3) have "feasible r \<longleftrightarrow>
                getProtocol tlsSocket = Some ''TLSv1.3''
              \<and> alpnProtocol tlsSocket = Some ''h2''
              \<and> js_or (CN subj) [] \<noteq> [] \<and> issuersOf cert \<noteq> []"
    by (simp add: isFeasible_def js_or_h2)
  with h t ce s r(1,2) show ?thesis by blast
qed

lemma scanTLS_socketWith:
  "\<exists>r. scanTLS (netWith (socketWith b1 b2 b3 b4)) exampleHost = Inr (Some r)
       \<and> (feasible r \<longleftrightarrow> b1 \<and> b2 \<and> b3 \<and> b4)"
  by (simp add: scanTLS_def scanTLS_try_def resolveHost_def falsy_def netWith_def exampleNet_def
        exampleHost_def socketWith_def issuersOf_def js_or_def isFeasible_def port_def Let_def)

text \<open>
  C3. The feasibility predicate is the conjunction of its four clauses: for all inputs,
  \<open>isFeasible\<close> holds iff the protocol is \<open>TLSv1.3\<close>, the ALPN is \<open>h2\<close>, and the
  certificate's domain and issuer are both non-empty. Each of the 16 combinations of the
  clauses' truth values gives the conjunction of the four, on the predicate and on a probe
  of a server with that combination. And every result a probe returns comes from the
  socket the handshake returned and from its certificate: the result's domain and issuer
  are the certificate's, and its \<open>feasible\<close> flag holds iff the protocol the socket
  negotiated is \<open>TLSv1.3\<close>, the ALPN it negotiated is \<open>h2\<close>, and the domain and the
  issuer read from the certificate are both non-empty.
\<close>

theorem isFeasible_iff_conjunction:
  "(isFeasible protocol alp cd ci \<longleftrightarrow>
      protocol = Some ''TLSv1.3'' \<and> alp = ''h2'' \<and> cd \<noteq> [] \<and> ci \<noteq> [])
   \<and> (isFeasible (if b1 then Some ''TLSv1.3'' else Some ''TLSv1.2'')
                  (if b2 then ''h2'' else ''http/1.1'')
                  (if b3 then ''example.com'' else [])
                  (if b4 then ''Example CA'' else [])
        \<longleftrightarrow> b1 \<and> b2 \<and> b3 \<and> b4)
   \<and> (\<exists>r'. scanTLS (netWith (socketWith b1 b2 b3 b4)) exampleHost = Inr (Some r')
            \<and> (feasible r' \<longleftrightarrow> b1 \<and> b2 \<and> b3 \<and> b4))
   \<and> (scanTLS net host = Inr (Some r) \<longrightarrow>
        (\<exists>hostIp tlsSocket cert subj.
            resolveHost net host = Some hostIp
          \<and> performTLSHandshake net hostIp
               (if Host.type host = Domain then Some (Host.origin host) else None)
              = Inr tlsSocket
          \<and> getPeerCertificate tlsSocket = Some cert \<and> subject cert = Some subj
          \<and> domain r = js_or (CN subj) [] \<and> TLSScanResult.issuer r = issuersOf cert
          \<and> (feasible r \<longleftrightarrow>
                getProtocol tlsSocket = Some ''TLSv1.3''
              \<and> alpnProtocol tlsSocket = Some ''h2''
              \<and> js_or (CN subj) [] \<noteq> [] \<and> issuersOf cert \<noteq> [])))"
proof -
  have a: "isFeasible protocol alp cd ci \<longleftrightarrow>
      protocol = Some ''TLSv1.3'' \<and> alp = ''h2'' \<and> cd \<noteq> [] \<and> ci \<noteq> []"
    by (simp add: isFeasible_def)
  have b: "isFeasible (if b1 then Some ''TLSv1.3'' else Some ''TLSv1.2'')
                  (if b2 then ''h2'' else ''http/1.1'')
                  (if b3 then ''example.com'' else [])
                  (if b4 then ''Example CA'' else [])
        \<longleftrightarrow> b1 \<and> b2 \<and> b3 \<and> b4"
    by (simp add: isFeasible_def)
  note c = scanTLS_socketWith [of b1 b2 b3 b4]
  have d: "scanTLS net host = Inr (Some r) \<Longrightarrow> scanTLS_try net host = Inr (Some r)"
    by (auto simp: scanTLS_def split: sum.splits)
  show ?thesis
    apply (intro conjI impI)
       apply (rule a)
      apply (rule b)
     apply (rule c)
    apply (rule scanTLS_try_socket)
    apply (erule d)
    done
qed

lemma scanTLS_example: "scanTLS exampleNet exampleHost = Inr (Some exampleResult)"
  by (simp add: scanTLS_def scanTLS_try_def resolveHost_def falsy_def exampleNet_def
        exampleHost_def exampleSocket_def exampleResult_def issuersOf_def js_or_def
        isFeasible_def port_def Let_def)

lemma scanTLS_tls12:
  "scanTLS (netWith (socketWith False True True True)) exampleHost
     = Inr (Some (exampleResult\<lparr>feasible := False, tlsVersion := ''TLSv1.2''\<rparr>))"
  by (simp add: scanTLS_def scanTLS_try_def resolveHost_def falsy_def netWith_def exampleNet_def
        exampleHost_def socketWith_def exampleResult_def issuersOf_def js_or_def
        isFeasible_def port_def Let_def)

text \<open>C3 on the example server, and on one that differs from it only in negotiating
  TLS 1.2: the first probe is feasible and the second is not.\<close>

theorem isFeasible_iff_conjunction_witness:
  "scanTLS exampleNet exampleHost = Inr (Some exampleResult)
   \<and> performTLSHandshake exampleNet ''192.0.2.7'' (Some ''example.com'') = Inr exampleSocket
   \<and> feasible exampleResult
   \<and> getProtocol exampleSocket = Some ''TLSv1.3'' \<and> alpnProtocol exampleSocket = Some ''h2''
   \<and> domain exampleResult = ''example.com'' \<and> TLSScanResult.issuer exampleResult = ''Example CA''
   \<and> scanTLS (netWith (socketWith False True True True)) exampleHost
       = Inr (Some (exampleResult\<lparr>feasible := False, tlsVersion := ''TLSv1.2''\<rparr>))
   \<and> getProtocol (socketWith False True True True) = Some ''TLSv1.2''"
  using isFeasible_iff_conjunction [of None "[]" "[]" "[]" True True True True
      exampleNet exampleHost exampleResult]
    isFeasible_iff_conjunction [of None "[]" "[]" "[]" False True True True
      "netWith (socketWith False True True True)" exampleHost
      "exampleResult\<lparr>feasible := False, tlsVersion := ''TLSv1.2''\<rparr>"]
  by (simp add: scanTLS_example scanTLS_tls12)
     (simp add: exampleResult_def exampleNet_def exampleSocket_def socketWith_def)

subsection \<open>Failures of a probe\<close>

lemma scanTLS_returns: "\<exists>result. scanTLS net host = Inr result"
  by (simp add: scanTLS_def split: sum.splits)

lemma scanTLS_dns_failure:
  "falsy (Host.ip host) \<Longrightarrow> falsy (lookupIP net (Host.origin host))
   \<Longrightarrow> scanTLS net host = Inr None"
  by (simp add: scanTLS_def scanTLS_try_def resolveHost_def)

lemma scanTLS_connect_failure:
  "resolveHost net host = Some a \<Longrightarrow> createConnection net a port = Inl err
   \<Longrightarrow> scanTLS net host = Inr None"
  by (simp add: scanTLS_def scanTLS_try_def)

lemma scanTLS_handshake_failure:
  "resolveHost net host = Some a \<Longrightarrow> createConnection net a port = Inr sock
   \<Longrightarrow> performTLSHandshake net a
         (if Host.type host = Domain then Some (Host.origin host) else None) = Inl err
   \<Longrightarrow> scanTLS net host = Inr None"
  by (simp add: scanTLS_def scanTLS_try_def)

lemma scanTLS_no_certificate:
  "resolveHost net host = Some a \<Longrightarrow> createConnection net a port = Inr sock
   \<Longrightarrow> performTLSHandshake net a
         (if Host.type host = Domain then Some (Host.origin host) else None) = Inr tls
   \<Longrightarrow> getPeerCertificate tls = None
         \<or> (\<exists>cert. getPeerCertificate tls = Some cert \<and> subject cert = None)
   \<Longrightarrow> scanTLS net host = Inr None"
  by (auto simp: scanTLS_def scanTLS_try_def)

text \<open>
  C6. A probe never lets an exception out: \<open>scanTLS\<close> always returns (the value is never
  \<open>Inl\<close>), and it returns \<^verbatim>\<open>null\<close> on each failure path: the DNS lookup of a host
  without an address fails; the connection is refused or times out; the handshake fails
  or times out; the peer presents no certificate, or a certificate with no subject.
\<close>

theorem scanTLS_failure_is_null:
  "(\<exists>result. scanTLS net host = Inr result)
   \<and> (falsy (Host.ip host) \<and> falsy (lookupIP net (Host.origin host))
        \<longrightarrow> scanTLS net host = Inr None)
   \<and> (resolveHost net host = Some a \<and> createConnection net a port = Inl err
        \<longrightarrow> scanTLS net host = Inr None)
   \<and> (resolveHost net host = Some a \<and> createConnection net a port = Inr sock
        \<and> performTLSHandshake net a
             (if Host.type host = Domain then Some (Host.origin host) else None) = Inl err
        \<longrightarrow> scanTLS net host = Inr None)
   \<and> (resolveHost net host = Some a \<and> createConnection net a port = Inr sock
        \<and> performTLSHandshake net a
             (if Host.type host = Domain then Some (Host.origin host) else None) = Inr tls
        \<and> (getPeerCertificate tls = None
             \<or> (\<exists>cert. getPeerCertificate tls = Some cert \<and> subject cert = None))
        \<longrightarrow> scanTLS net host = Inr None)"
  using scanTLS_returns [of net host] scanTLS_dns_failure [of host net]
    scanTLS_connect_failure [of net host a err]
    scanTLS_handshake_failure [of net host a sock err]
    scanTLS_no_certificate [of net host a sock tls]
  by blast

text \<open>The five failures, each on the example network with one collaborator failing.\<close>

theorem scanTLS_failure_is_null_witness:
  "scanTLS (exampleNet\<lparr>lookupIP := (\<lambda>name. None)\<rparr>) exampleHost = Inr None
   \<and> scanTLS (exampleNet\<lparr>createConnection := (\<lambda>addr p. Inl ''ECONNREFUSED'')\<rparr>)
        exampleHost = Inr None
   \<and> scanTLS (exampleNet\<lparr>performTLSHandshake :=
          (\<lambda>addr servername. Inl ''TLS handshake timeout'')\<rparr>) exampleHost = Inr None
   \<and> scanTLS (exampleNet\<lparr>performTLSHandshake :=
          (\<lambda>addr servername. Inr (exampleSocket\<lparr>getPeerCertificate := None\<rparr>))\<rparr>)
        exampleHost = Inr None
   \<and> scanTLS (exampleNet\<lparr>performTLSHandshake :=
          (\<lambda>addr servername. Inr (exampleSocket\<lparr>getPeerCertificate :=
             Some \<lparr>subject = None, PeerCertificate.issuer = None\<rparr>\<rparr>))\<rparr>)
        exampleHost = Inr None"
  using
    scanTLS_failure_is_null [of "exampleNet\<lparr>lookupIP := (\<lambda>name. None)\<rparr>" exampleHost]
    scanTLS_failure_is_null [of
      "exampleNet\<lparr>createConnection := (\<lambda>addr p. Inl ''ECONNREFUSED'')\<rparr>" exampleHost
      "''192.0.2.7''" "''ECONNREFUSED''"]
    scanTLS_failure_is_null [of
      "exampleNet\<lparr>performTLSHandshake := (\<lambda>addr servername. Inl ''TLS handshake timeout'')\<rparr>"
      exampleHost "''192.0.2.7''" "''TLS handshake timeout''" "()"]
    scanTLS_failure_is_null [of
      "exampleNet\<lparr>performTLSHandshake :=
          (\<lambda>addr servername. Inr (exampleSocket\<lparr>getPeerCertificate := None\<rparr>))\<rparr>"
      exampleHost "''192.0.2.7''" _ "()" "exampleSocket\<lparr>getPeerCertificate := None\<rparr>"]
    scanTLS_failure_is_null [of
      "exampleNet\<lparr>performTLSHandshake :=
          (\<lambda>addr servername. Inr (exampleSocket\<lparr>getPeerCertificate :=
             Some \<lparr>subject = None, PeerCertificate.issuer = None\<rparr>\<rparr>))\<rparr>"
      exampleHost "''192.0.2.7''" _ "()"
      "exampleSocket\<lparr>getPeerCertificate :=
             Some \<lparr>subject = None, PeerCertificate.issuer = None\<rparr>\<rparr>"]
  by (simp add: resolveHost_def falsy_def exampleNet_def exampleHost_def)

section \<open>Properties of the output records\<close>

lemma formatScanResult_line:
  "formatScanResult r =
     (if feasible r
      then TLSScanResult.ip r @ '','' @ TLSScanResult.origin r @ '','' @ domain r @ '',''
           @ [CHR 0x22] @ TLSScanResult.issuer r @ [CHR 0x22] @ '','' @ geoCode r @ [CHR 0x0A]
      else [])"
  by (simp add: formatScanResult_def)

lemma formatScanResult_empty_iff: "formatScanResult r = [] \<longleftrightarrow> \<not> feasible r"
  by (simp add: formatScanResult_def)

text \<open>One iteration of a worker appends the line of a feasible result and nothing else.\<close>

lemma account_outputFile:
  "outputFile s = Some written \<Longrightarrow>
   outputFile (account result s) =
     Some (written @ (case result of None \<Rightarrow> [] | Some r \<Rightarrow> formatScanResult r))"
  by (auto simp: account_def Let_def formatScanResult_empty_iff split: option.splits)

lemma fold_account_outputFile:
  "outputFile s = Some written \<Longrightarrow>
   outputFile (fold account results s) =
     Some (written
           @ concat (map (\<lambda>result. case result of None \<Rightarrow> [] | Some r \<Rightarrow> formatScanResult r)
                      results))"
proof (induction results arbitrary: s written)
  case Nil
  then show ?case by simp
next
  case (Cons res results)
  from account_outputFile [OF Cons.prems, of res]
  show ?case by (simp add: Cons.IH)
qed

lemma generateCSVOutput_rows:
  "generateCSVOutput results =
     ''IP,Origin,Domain,Issuer,GeoCode'' @ [CHR 0x0A]
     @ concat (map formatScanResult (filter feasible results))"
  by (simp add: generateCSVOutput_def)

text \<open>
  C8. The records are written for feasible results only, each as the line
  \<open>ip,origin,certDomain,"certIssuer",geoCode\<close>, and \<open>formatScanResult\<close> is empty for every
  other result. The header is the claimed one only in the file the workers write:
  \<open>setupOutputFile\<close> starts the file with \<open>IP,ORIGIN,CERT_DOMAIN,CERT_ISSUER,GEO_CODE\<close>,
  while \<open>generateCSVOutput\<close> puts its records under \<open>IP,Origin,Domain,Issuer,GeoCode\<close>.
  Evaluated on the example result and on a result that is not feasible.
\<close>

theorem generateCSVOutput_header_differs:
  "generateCSVOutput [exampleResult, exampleResult\<lparr>feasible := False\<rparr>] =
     ''IP,Origin,Domain,Issuer,GeoCode'' @ [CHR 0x0A]
     @ ''192.0.2.7,example.com,example.com,'' @ [CHR 0x22] @ ''Example CA'' @ [CHR 0x22]
     @ '',N/A'' @ [CHR 0x0A]
   \<and> outputFile (fold account [Some exampleResult, None, Some (exampleResult\<lparr>feasible := False\<rparr>)]
        (setupOutputFile ''out.csv''
           \<lparr>outputFile = None, scanCount = 0, feasibleCount = 0, activeWorkers = 0,
            isShuttingDown = False\<rparr>)) =
     Some (''IP,ORIGIN,CERT_DOMAIN,CERT_ISSUER,GEO_CODE'' @ [CHR 0x0A]
     @ ''192.0.2.7,example.com,example.com,'' @ [CHR 0x22] @ ''Example CA'' @ [CHR 0x22]
     @ '',N/A'' @ [CHR 0x0A])
   \<and> formatScanResult (exampleResult\<lparr>feasible := False\<rparr>) = []"
  by (simp add: generateCSVOutput_def formatScanResult_def setupOutputFile_def account_def
        exampleResult_def Let_def)

end
